theory Spec2Isabelle
  imports Complex_Main
begin

section \<open>Python primitives used by CC/PBSA\<close>

text \<open>
  The model works on ASCII text: a Python \<open>str\<close> is a \<open>string\<close>, one \<open>char\<close> per
  code point. Exceptions are values of \<open>py_error\<close>; a function that may raise returns
  \<open>py_error + 'a\<close> with \<open>Inl\<close> for the exception.
\<close>

datatype py_error =
  ValueError | IndexError | KeyError | AssertionError | AttributeError | OSError

definition ebind :: "'e + 'a \<Rightarrow> ('a \<Rightarrow> 'e + 'b) \<Rightarrow> 'e + 'b" where
  "ebind m f = (case m of Inl e \<Rightarrow> Inl e | Inr x \<Rightarrow> f x)"

text \<open>A list comprehension whose body may raise: the first raising element aborts it.\<close>

fun emap :: "('a \<Rightarrow> 'e + 'b) \<Rightarrow> 'a list \<Rightarrow> 'e + 'b list" where
  "emap f [] = Inr []"
| "emap f (x # xs) = ebind (f x) (\<lambda>y. ebind (emap f xs) (\<lambda>ys. Inr (y # ys)))"

definition isdigit :: "char \<Rightarrow> bool" where
  "isdigit c = (c \<in> set ''0123456789'')"

definition isspace :: "char \<Rightarrow> bool" where
  \<comment> \<open>the ASCII characters for which \<open>str.isspace\<close> holds\<close>
  "isspace c = (c \<in> {CHR 0x09, CHR 0x0A, CHR 0x0B, CHR 0x0C, CHR 0x0D,
                      CHR 0x1C, CHR 0x1D, CHR 0x1E, CHR 0x1F, CHR 0x20})"

text \<open>\<open>xs.index(x)\<close>: the first position of \<open>x\<close>, \<open>ValueError\<close> when absent.\<close>

fun py_index :: "'a list \<Rightarrow> 'a \<Rightarrow> py_error + nat" where
  "py_index [] x = Inl ValueError"
| "py_index (y # ys) x =
     (if y = x then Inr 0 else ebind (py_index ys x) (\<lambda>n. Inr (Suc n)))"

text \<open>\<open>xs[i]\<close>: negative indices count from the end, out of range is \<open>IndexError\<close>.\<close>

definition py_get :: "'a list \<Rightarrow> int \<Rightarrow> py_error + 'a" where
  "py_get xs i =
     (if 0 \<le> i \<and> i < int (length xs) then Inr (xs ! nat i)
      else if i < 0 \<and> - i \<le> int (length xs) then Inr (xs ! nat (int (length xs) + i))
      else Inl IndexError)"

text \<open>\<open>s.split(sep)\<close> for a one-character separator; the result is never empty.\<close>

fun split_on :: "char \<Rightarrow> string \<Rightarrow> string list" where
  "split_on sep [] = [[]]"
| "split_on sep (c # cs) =
     (if c = sep then [] # split_on sep cs
      else (case split_on sep cs of [] \<Rightarrow> [[c]] | w # ws \<Rightarrow> (c # w) # ws))"

text \<open>\<open>s.split()\<close>: the maximal runs of non-whitespace characters.\<close>

fun py_split_aux :: "string \<Rightarrow> string \<Rightarrow> string list" where
  "py_split_aux cur [] = (if cur = [] then [] else [cur])"
| "py_split_aux cur (c # cs) =
     (if isspace c then (if cur = [] then py_split_aux [] cs else cur # py_split_aux [] cs)
      else py_split_aux (cur @ [c]) cs)"

definition py_split :: "string \<Rightarrow> string list" where
  "py_split s = py_split_aux [] s"

text \<open>\<open>sep.join(xs)\<close>.\<close>

fun join :: "string \<Rightarrow> string list \<Rightarrow> string" where
  "join sep [] = []"
| "join sep [x] = x"
| "join sep (x # y # ys) = x @ sep @ join sep (y # ys)"

text \<open>\<open>list(open(f))\<close> and \<open>readlines()\<close>: the lines of a text, each with its newline
  (the last one without, when the text does not end in a newline).\<close>

fun readlines_aux :: "string \<Rightarrow> string \<Rightarrow> string list" where
  "readlines_aux cur [] = (if cur = [] then [] else [cur])"
| "readlines_aux cur (c # cs) =
     (if c = CHR ''\<newline>'' then (cur @ [c]) # readlines_aux [] cs
      else readlines_aux (cur @ [c]) cs)"

definition readlines :: "string \<Rightarrow> string list" where
  "readlines s = readlines_aux [] s"

text \<open>\<open>int(s)\<close> on a string: surrounding whitespace is stripped, a sign is allowed, and
  single underscores may separate digits.\<close>

definition digit_val :: "char \<Rightarrow> nat" where
  "digit_val c = of_char c - 48"

definition nat_of_digits :: "string \<Rightarrow> nat" where
  "nat_of_digits ds = foldl (\<lambda>n c. 10 * n + digit_val c) 0 ds"

definition strip :: "string \<Rightarrow> string" where
  "strip s = rev (dropWhile isspace (rev (dropWhile isspace s)))"

fun digits_ok :: "string \<Rightarrow> bool" where
  \<comment> \<open>digits, with single underscores only between two digits\<close>
  "digits_ok [] = False"
| "digits_ok [c] = isdigit c"
| "digits_ok (c # d # cs) =
     (isdigit c \<and> (if d = CHR ''_'' then digits_ok cs else digits_ok (d # cs)))"

definition py_int :: "string \<Rightarrow> py_error + int" where
  "py_int s =
     (let t = strip s;
          neg = (case t of [] \<Rightarrow> False | c # _ \<Rightarrow> c = CHR ''-'');
          body = (case t of [] \<Rightarrow> [] | c # r \<Rightarrow> if c = CHR ''-'' \<or> c = CHR ''+'' then r else t)
      in if digits_ok body
         then (let n = int (nat_of_digits (filter (\<lambda>c. c \<noteq> CHR ''_'') body))
               in Inr (if neg then - n else n))
         else Inl ValueError)"

section \<open>Module-level helpers\<close>

text \<open>\<open>int_in_str\<close>: the digits of the argument, concatenated and read as one integer.\<close>

definition int_in_str :: "string \<Rightarrow> py_error + int" where
  "int_in_str lst = (let converted = filter isdigit lst in py_int converted)"

section \<open>DataGenerator.parse\_mutlist\<close>

definition aa1 :: "char list" where
  "aa1 = ''ACDEFGHIKLMNPQRSTVWY''"

definition aa3 :: "string list" where
  "aa3 = py_split ''ALA CYS ASP GLU PHE GLY HIS ILE LYS LEU             MET ASN PRO GLN ARG SER THR VAL TRP TYR''"

definition aa123 :: "(char \<times> string) list" where
  "aa123 = zip aa1 aa3"

text \<open>\<open>d[k]\<close> on a dictionary given by its items: \<open>KeyError\<close> when the key is absent.\<close>

definition dict_get :: "('k \<times> 'v) list \<Rightarrow> 'k \<Rightarrow> py_error + 'v" where
  "dict_get d k = (case map_of d k of None \<Rightarrow> Inl KeyError | Some v \<Rightarrow> Inr v)"

text \<open>One row of the data frame returned by \<open>parse_mutlist\<close>: the index label (the raw
  line) and the four columns.\<close>

record mutation =
  label :: string
  Chain :: string
  AA :: string
  Residue :: int
  Mutation :: string

definition parse_mutlist :: "string \<Rightarrow> py_error + mutation list" where
  "parse_mutlist mutlist_raw =
     ebind (emap (\<lambda>mut. py_get (split_on CHR ''\<newline>'' mut) 0) (readlines mutlist_raw))
       (\<lambda>mut_lst.
     ebind (emap (\<lambda>i. if CHR ''_'' \<in> set i then ebind (py_get i 0) (\<lambda>c. Inr [c])
                      else Inr []) mut_lst)
       (\<lambda>chain.
     ebind (emap (\<lambda>i. if CHR ''_'' \<notin> set i then ebind (py_get i 0) (\<lambda>c. Inr [c])
                      else ebind (py_index i CHR ''_'')
                             (\<lambda>k. ebind (py_get i (int k + 1)) (\<lambda>c. Inr [c]))) mut_lst)
       (\<lambda>aa.
     ebind (emap int_in_str mut_lst)
       (\<lambda>residue.
     ebind (emap (\<lambda>i. ebind (py_get i (- 1)) (dict_get aa123)) mut_lst)
       (\<lambda>mutation.
     Inr (map (\<lambda>(l, c, a, r, m).
                 \<lparr>label = l, Chain = c, AA = a, Residue = r, Mutation = m\<rparr>)
            (zip mut_lst (zip chain (zip aa (zip residue mutation))))))))))"

subsection \<open>The parsing rule as the specification words it\<close>

text \<open>The chain is the text before the underscore, the original residue is the character
  just before the first digit, the position is the first maximal run of digits read in
  base 10, the target is the table entry of the last character.\<close>

definition spec_chain :: "string \<Rightarrow> string" where
  "spec_chain line =
     (if CHR ''_'' \<in> set line then takeWhile (\<lambda>c. c \<noteq> CHR ''_'') line else [])"

definition spec_original :: "string \<Rightarrow> string" where
  "spec_original line =
     (case rev (takeWhile (\<lambda>c. \<not> isdigit c) line) of [] \<Rightarrow> [] | c # _ \<Rightarrow> [c])"

definition spec_position :: "string \<Rightarrow> int" where
  "spec_position line =
     int (nat_of_digits (takeWhile isdigit (dropWhile (\<lambda>c. \<not> isdigit c) line)))"

definition spec_mutation :: "string \<Rightarrow> py_error + mutation" where
  "spec_mutation line =
     (if line = [] then Inl IndexError
      else ebind (dict_get aa123 (last line))
             (\<lambda>m. Inr \<lparr>label = line, Chain = spec_chain line, AA = spec_original line,
                        Residue = spec_position line, Mutation = m\<rparr>))"

definition mut_core :: "string \<Rightarrow> bool" where
  "mut_core s =
     (case s of [] \<Rightarrow> False
      | a # r \<Rightarrow> \<not> isdigit a \<and> a \<noteq> CHR ''_'' \<and> a \<noteq> CHR ''\<newline>'' \<and> 2 \<le> length r \<and>
                 list_all isdigit (butlast r) \<and> last r \<in> set aa1)"

definition mut_format :: "string \<Rightarrow> bool" where
  "mut_format s =
     (case s of
        c # u # r \<Rightarrow>
          if u = CHR ''_''
          then \<not> isdigit c \<and> c \<noteq> CHR ''_'' \<and> c \<noteq> CHR ''\<newline>'' \<and> mut_core r
          else mut_core s
      | _ \<Rightarrow> False)"

definition unlines :: "string list \<Rightarrow> string" where
  "unlines ls = concat (map (\<lambda>l. l @ ''\<newline>'') ls)"

definition target_of :: "string \<Rightarrow> string" where
  "target_of l = (case dict_get aa123 (last l) of Inl _ \<Rightarrow> [] | Inr m \<Rightarrow> m)"

section \<open>The topology patch of DataGenerator.minimize and DataGenerator.coulomb\_lj\<close>

text \<open>
  In affinity mode both methods run, for every chain number \<open>cn\<close>, the same edit of
  \<open>topol.top\<close>: the lines are read, every one of the last \<open>len(self.chains)\<close>
  lines that differs from line \<open>l[cn - len(self.chains)]\<close> gets a semicolon in front,
  the file is written, GROMACS runs, the first character of every such line that differs
  from \<open>l[cn - len(self.chains)]\<close> is dropped again, and the file is written once more.

  \<open>neg_tail k l\<close> is the slice \<open>l[-k:]\<close> and \<open>set_neg_tail k l new\<close> the list after
  \<open>l[-k:] = new\<close>. The selected line is read inside the comprehension, once per
  element, so an index out of range raises only when the slice is not empty.
  \<open>gmx_ok\<close> says whether the GROMACS calls between the two edits return; when they
  raise, the method stops with the patched file on disk.
\<close>

definition neg_tail :: "nat \<Rightarrow> 'a list \<Rightarrow> 'a list" where
  "neg_tail k xs = (if k = 0 then xs else drop (length xs - k) xs)"

definition set_neg_tail :: "nat \<Rightarrow> 'a list \<Rightarrow> 'a list \<Rightarrow> 'a list" where
  "set_neg_tail k xs new = (if k = 0 then new else take (length xs - k) xs @ new)"

definition comment_others :: "nat \<Rightarrow> nat \<Rightarrow> string list \<Rightarrow> py_error + string list" where
  "comment_others cn k l =
     ebind (emap (\<lambda>line. ebind (py_get l (int cn - int k))
                     (\<lambda>sel. Inr (if line \<noteq> sel then CHR '';'' # line else line)))
              (neg_tail k l))
       (\<lambda>new. Inr (set_neg_tail k l new))"

definition revert_others :: "nat \<Rightarrow> nat \<Rightarrow> string list \<Rightarrow> py_error + string list" where
  "revert_others cn k l =
     ebind (emap (\<lambda>line. ebind (py_get l (int cn - int k))
                     (\<lambda>sel. Inr (if line \<noteq> sel then drop 1 line else line)))
              (neg_tail k l))
       (\<lambda>new. Inr (set_neg_tail k l new))"

text \<open>One chain iteration, as a function of the content of \<open>topol.top\<close> before it to
  the content after it.\<close>

definition topol_iteration :: "bool \<Rightarrow> nat \<Rightarrow> string list \<Rightarrow> string \<Rightarrow> py_error + string" where
  "topol_iteration gmx_ok cn chns topol =
     ebind (comment_others cn (length chns) (readlines topol))
       (\<lambda>l. if \<not> gmx_ok then Inl OSError
            else ebind (revert_others cn (length chns) l) (\<lambda>l'. Inr (concat l')))"

section \<open>DataGenerator.parse\_flags\<close>

text \<open>
  The argument is the content of the flags file. The result is the nested dictionary
  \<open>parsed_flags\<close>, as the list of its items in insertion order. The six categories are
  looked up in the fixed order of the dictionary literal, and category number \<open>i\<close> gets
  the lines between position \<open>idx[i]\<close> and position \<open>idx[i+1]\<close>; the two loops over the
  literal are written out.
\<close>

text \<open>\<open>xs[a:b]\<close> for indices that are not negative.\<close>

definition py_slice :: "nat \<Rightarrow> nat \<Rightarrow> 'a list \<Rightarrow> 'a list" where
  "py_slice a b xs = drop a (take b xs)"

text \<open>\<open>s[:s.index(c)]\<close>, defined when \<open>c\<close> occurs in \<open>s\<close>.\<close>

definition upto_char :: "char \<Rightarrow> string \<Rightarrow> py_error + string" where
  "upto_char c s = ebind (py_index s c) (\<lambda>k. Inr (take k s))"

text \<open>\<open>unpack\<close> flattens nested lists; on a list of lists of strings, the only use the
  model needs, the result is their concatenation.\<close>

definition unpack :: "string list list \<Rightarrow> string list" where
  "unpack lst = concat lst"

type_synonym flagdict = "(string \<times> (string \<times> string list) list) list"

definition headers :: "string list" where
  "headers = [''DIST FLAGS'', ''DISCO FLAGS'', ''PDB2GMX FLAGS'', ''EDITCONF FLAGS'',
              ''GROMPP FLAGS'', ''MDRUN FLAGS'']"

text \<open>The loop that fills \<open>uncommented\<close>: a line is cut at its first semicolon; when
  something is left, its blank-separated words are joined by single blanks.\<close>

fun uncomment :: "string list \<Rightarrow> py_error + string list" where
  "uncomment [] = Inr []"
| "uncomment (line # rest) =
     ebind (if CHR '';'' \<in> set line then upto_char CHR '';'' line else Inr line)
       (\<lambda>line'. ebind (uncomment rest)
          (\<lambda>u. Inr (if 0 < length line' then join '' '' (py_split line') # u else u)))"

text \<open>The list \<open>uncommented\<close> of a file. A line without a newline (a last line that is not
  terminated) makes \<open>line.index\<close> raise.\<close>

definition flag_lines :: "string \<Rightarrow> py_error + string list" where
  "flag_lines flags_raw =
     ebind (emap (upto_char CHR ''\<newline>'') (readlines flags_raw)) uncomment"

definition section_of :: "nat list \<Rightarrow> string list \<Rightarrow> nat \<Rightarrow> string list" where
  "section_of idx uncommented i =
     unpack (map (split_on CHR ''='') (py_slice (idx ! i + 1) (idx ! (i + 1)) uncommented))"

definition parse_flags :: "string \<Rightarrow> py_error + flagdict" where
  "parse_flags flags_raw =
     ebind (flag_lines flags_raw)
       (\<lambda>uncommented.
     ebind (emap (py_index uncommented) headers)
       (\<lambda>idx0.
     let idx = idx0 @ [length uncommented] in
     Inr [(''CC'', [(''DIST FLAGS'', section_of idx uncommented 0),
                    (''DISCO FLAGS'', section_of idx uncommented 1)]),
          (''gmx'', [(''PDB2GMX FLAGS'', section_of idx uncommented 2),
                     (''EDITCONF FLAGS'', section_of idx uncommented 3),
                     (''GROMPP FLAGS'', section_of idx uncommented 4),
                     (''MDRUN FLAGS'', section_of idx uncommented 5)])]))"

subsection \<open>Sections of key=value lines\<close>

text \<open>A line \<open>key=value\<close> is given by the pair of its key and its value, neither holding
  an equals sign; its two tokens are the key and the value.\<close>

definition kv_line :: "string \<times> string \<Rightarrow> string" where
  "kv_line kv = fst kv @ ''='' @ snd kv"

definition kv_tokens :: "(string \<times> string) list \<Rightarrow> string list" where
  "kv_tokens kvs = concat (map (\<lambda>kv. [fst kv, snd kv]) kvs)"

definition no_eq :: "(string \<times> string) list \<Rightarrow> bool" where
  "no_eq kvs = list_all (\<lambda>kv. CHR ''='' \<notin> set (fst kv) \<and> CHR ''='' \<notin> set (snd kv)) kvs"

definition swapped_flags :: string where
  "swapped_flags = ''DISCO FLAGS\<newline>-n=5\<newline>DIST FLAGS\<newline>-a=1\<newline>PDB2GMX FLAGS\<newline>EDITCONF FLAGS\<newline>GROMPP FLAGS\<newline>MDRUN FLAGS\<newline>''"

text \<open>The lines of a flags file with a comment line, a comment after a flag and an empty
  line; the file itself is \<open>unlines example_lines\<close>.\<close>

definition example_lines :: "string list" where
  "example_lines = [''; flags of a run'', ''DIST FLAGS'', ''-c=2  ; cut'', '''', ''DISCO FLAGS'',
     ''-n=200'', ''-i=10'', ''PDB2GMX FLAGS'', ''-ff=amber'', ''EDITCONF FLAGS'',
     ''GROMPP FLAGS'', ''MDRUN FLAGS'', ''-nt=1'']"

section \<open>The state of a DataGenerator and the world around it\<close>

text \<open>
  The methods of the class change directories, run external programs and move files. The
  model records these steps, in order, as a list of events; a method is a function from
  the events so far to its result and the events after it, so that what was done before
  an exception stays done. The external programs and the file system are taken to do
  their part: an event never fails.
\<close>

datatype event =
    Chdir string
  | Run "string list" string
  | Makedir string
  | Move string string
  | WriteFile string "string list"
  | AppendLog string

type_synonym 'a io = "event list \<Rightarrow> (py_error + 'a) \<times> event list"

definition ret :: "'a \<Rightarrow> 'a io" where
  "ret x = (\<lambda>t. (Inr x, t))"

definition lift :: "py_error + 'a \<Rightarrow> 'a io" where
  "lift r = (\<lambda>t. (r, t))"

definition emit :: "event \<Rightarrow> unit io" where
  "emit e = (\<lambda>t. (Inr (), t @ [e]))"

definition iobind :: "'a io \<Rightarrow> ('a \<Rightarrow> 'b io) \<Rightarrow> 'b io" where
  "iobind m f = (\<lambda>t. case m t of (Inl e, t') \<Rightarrow> (Inl e, t') | (Inr x, t') \<Rightarrow> f x t')"

fun iofor :: "'a list \<Rightarrow> ('a \<Rightarrow> unit io) \<Rightarrow> unit io" where
  "iofor [] f = ret ()"
| "iofor (x # xs) f = iobind (f x) (\<lambda>_. iofor xs f)"

text \<open>The attributes of a DataGenerator. \<open>mut_index\<close> is the index of \<open>mut_df\<close>,
  \<open>chain_ids\<close> is \<open>self.chains\<close>.\<close>

record generator =
  mode :: string
  wt :: string
  flags :: flagdict
  mut_index :: "string list"
  e_mdp :: string
  min_mdp :: string
  mdrun_table :: string
  pbeparams :: string
  minimized :: bool
  chain_ids :: "string list"
  maindir :: string
  wdlist :: "string list"

text \<open>\<open>str(n)\<close> for a number that is not negative.\<close>

definition digit_char :: "nat \<Rightarrow> char" where
  "digit_char k = ''0123456789'' ! k"

fun str_nat :: "nat \<Rightarrow> string" where
  "str_nat n = (if n < 10 then [digit_char n] else str_nat (n div 10) @ [digit_char (n mod 10)])"

declare str_nat.simps [simp del]

text \<open>\<open>d.split('/')[-1]\<close>.\<close>

definition basename :: "string \<Rightarrow> string" where
  "basename d = last (split_on CHR ''/'' d)"

definition flags_of :: "generator \<Rightarrow> string \<Rightarrow> string \<Rightarrow> py_error + string list" where
  "flags_of g tool cat = ebind (dict_get (flags g) tool) (\<lambda>m. dict_get m cat)"

text \<open>\<open>len(self)\<close>: the integer after \<open>-n\<close> in the DISCO flags. The built-in
  \<open>len\<close> raises \<open>ValueError\<close> when \<open>__len__\<close> returns a negative number.\<close>

definition len_gen :: "generator \<Rightarrow> py_error + nat" where
  "len_gen g =
     ebind (flags_of g ''CC'' ''DISCO FLAGS'') (\<lambda>disco1.
     ebind (flags_of g ''CC'' ''DISCO FLAGS'') (\<lambda>disco2.
     ebind (py_index disco2 ''-n'') (\<lambda>k.
     ebind (py_get disco1 (int k + 1)) (\<lambda>tok.
     ebind (py_int tok) (\<lambda>n.
     if n < 0 then Inl ValueError else Inr (nat n))))))"

text \<open>\<open>concoord\<close>: per working directory the two CONCOORD programs run, then the
  conformers \<open>1.pdb\<close> to \<open>N.pdb\<close> are moved into directories of their numbers; at the
  end the list of working directories is replaced.\<close>

definition move_conformers :: "nat \<Rightarrow> unit io" where
  "move_conformers N =
     iofor [1..<N + 1] (\<lambda>n.
       let nr = str_nat n in
       iobind (emit (Makedir nr)) (\<lambda>_. emit (Move (nr @ ''.pdb'') nr)))"

definition concoord_dir :: "generator \<Rightarrow> string \<Rightarrow> unit io" where
  "concoord_dir g d =
     iobind (emit (Chdir d)) (\<lambda>_.
     let fpf = basename d;
         dist_input = [''dist'', ''-p'', fpf @ ''.pdb'', ''-op'', fpf @ ''_dist.pdb'',
                       ''-og'', fpf @ ''_dist.gro'', ''-od'', fpf @ ''_dist.dat''];
         disco_input = [''disco'', ''-d'', fpf @ ''_dist.dat'', ''-p'', fpf @ ''_dist.pdb'',
                        ''-op'', [], ''-or'', fpf @ ''_disco.rms'',
                        ''-of'', fpf @ ''_disco_Bfac.pdb'']
     in
     iobind (lift (flags_of g ''CC'' ''DIST FLAGS'')) (\<lambda>dist_flags.
     iobind (lift (flags_of g ''CC'' ''DISCO FLAGS'')) (\<lambda>disco_flags.
     iobind (emit (Run (dist_input @ dist_flags) ''1\<newline>1'')) (\<lambda>_.
     iobind (emit (Run (disco_input @ disco_flags) [])) (\<lambda>_.
     iobind (lift (len_gen g)) (\<lambda>N.
     iobind (move_conformers N) (\<lambda>_.
     emit (Chdir (maindir g)))))))))"

definition concoord :: "generator \<Rightarrow> generator io" where
  "concoord g =
     iobind (iofor (wdlist g) (concoord_dir g)) (\<lambda>_.
     iobind (lift (emap (\<lambda>d. ebind (len_gen g)
                          (\<lambda>N. Inr (map (\<lambda>n. d @ ''/'' @ str_nat n) [1..<N + 1])))
                    (wdlist g)))
       (\<lambda>new. ret (g\<lparr>wdlist := concat new\<rparr>)))"

definition numbered :: "nat \<Rightarrow> string \<Rightarrow> string list" where
  "numbered N d = map (\<lambda>n. d @ ''/'' @ str_nat n) [1..<N + 1]"

definition g5 :: generator where
  "g5 = \<lparr>mode = ''stability'', wt = ''1stn.pdb'',
         flags = [(''CC'', [(''DIST FLAGS'', []), (''DISCO FLAGS'', [''-n'', ''5''])]),
                  (''gmx'', [(''PDB2GMX FLAGS'', []), (''EDITCONF FLAGS'', []),
                             (''GROMPP FLAGS'', []), (''MDRUN FLAGS'', [])])],
         mut_index = [''A20G'', ''B_H10I''], e_mdp = ''energy.mdp'', min_mdp = ''min.mdp'',
         mdrun_table = ''table.xvg'', pbeparams = ''pbe.txt'', minimized = False,
         chain_ids = [''A''], maindir = ''/w'',
         wdlist = [''/w/1stn'', ''/w/A20G'', ''/w/B_H10I'']\<rparr>"

section \<open>The evaluation stages of DataGenerator\<close>

text \<open>
  \<open>gmx\<close> runs GROMACS with the given arguments and standard input (the empty string
  when the call gives none); \<open>log\<close> appends the captured output to a file. The stages
  \<open>coulomb_lj\<close>, \<open>area\<close> and \<open>schlitter\<close> begin with
  \<open>assert self.minimized == True\<close>; in \<open>solvation_energy\<close> this line is commented out.
  \<open>coulomb_lj\<close> reads \<open>topol.top\<close> in the working directory: \<open>topol_of d\<close> is the
  content it finds in directory \<open>d\<close>, and each chain iteration reads what the one before
  wrote. \<open>solvation_energy\<close> reads the parameter file, whose content is \<open>pbe\<close>.
\<close>

definition gmx :: "string list \<Rightarrow> string \<Rightarrow> unit io" where
  "gmx prog stdin = emit (Run ([''gmx'', ''-quiet''] @ prog) stdin)"

definition log_to :: "string \<Rightarrow> unit io" where
  "log_to fname = emit (AppendLog fname)"

definition assert_minimized :: "generator \<Rightarrow> unit io" where
  "assert_minimized g = (if minimized g = True then ret () else lift (Inl AssertionError))"

text \<open>\<open>__repr__\<close>: the file name of the wildtype structure without its last four
  characters.\<close>

definition repr :: "generator \<Rightarrow> string" where
  "repr g = (let s = basename (wt g) in take (length s - 4) s)"

text \<open>\<open>list(self.flags['gmx'].values())[-2:]\<close>.\<close>

definition last_two_gmx_flags :: "generator \<Rightarrow> py_error + string list list" where
  "last_two_gmx_flags g = ebind (dict_get (flags g) ''gmx'') (\<lambda>m. Inr (neg_tail 2 (map snd m)))"

fun chain_fold :: "(nat \<Rightarrow> string \<Rightarrow> string io) \<Rightarrow> nat list \<Rightarrow> string \<Rightarrow> string io" where
  "chain_fold f [] c = ret c"
| "chain_fold f (cn # cns) c = iobind (f cn c) (chain_fold f cns)"

definition coulomb_lj_chain :: "generator \<Rightarrow> nat \<Rightarrow> string \<Rightarrow> string io" where
  "coulomb_lj_chain g cn topol =
     (let c = chain_ids g ! cn;
          ccout = ''chain_'' @ c @ ''_confout.gro'';
          chaintpr = ''chain_'' @ c @ ''_lj.tpr''
      in
      iobind (lift (comment_others cn (length (chain_ids g)) (readlines topol))) (\<lambda>l.
      iobind (emit (WriteFile ''topol.top'' l)) (\<lambda>_.
      iobind (lift (last_two_gmx_flags g)) (\<lambda>fl.
      iobind (iofor (map (\<lambda>(p, f). p @ f)
                      (zip [[''grompp'', ''-f'', e_mdp g, ''-c'', ccout, ''-o'', chaintpr],
                            [''mdrun'', ''-s'', chaintpr, ''-rerun'', ccout,
                             ''-deffnm'', ''chain_'' @ c @ ''_sp'']] fl))
                (\<lambda>proc. gmx proc [])) (\<lambda>_.
      iobind (gmx [''energy'', ''-f'', ''chain_'' @ c @ ''_sp.edr'', ''-sum'', ''yes''] ''5 6 7 8'') (\<lambda>_.
      iobind (log_to (''chain_'' @ c @ ''_coulomb.log'')) (\<lambda>_.
      iobind (gmx [''energy'', ''-f'', ''chain_'' @ c @ ''_sp.edr'', ''-sum'', ''yes''] ''5 6 7 8'') (\<lambda>_.
      iobind (log_to (''chain_'' @ c @ ''_lj.log'')) (\<lambda>_.
      iobind (lift (revert_others cn (length (chain_ids g)) l)) (\<lambda>l'.
      iobind (emit (WriteFile ''topol.top'' l')) (\<lambda>_.
      ret (concat l'))))))))))))"

definition coulomb_lj_dir :: "(string \<Rightarrow> string) \<Rightarrow> generator \<Rightarrow> string \<Rightarrow> unit io" where
  "coulomb_lj_dir topol_of g d =
     iobind (emit (Chdir d)) (\<lambda>_.
     iobind (lift (last_two_gmx_flags g)) (\<lambda>fl.
     iobind (iofor (map (\<lambda>(p, f). p @ f)
                     (zip [[''grompp'', ''-f'', e_mdp g, ''-c'', ''confout.gro'', ''-o'', ''sp.tpr''],
                           [''mdrun'', ''-s'', ''sp.tpr'', ''-rerun'', ''confout.gro'',
                            ''-deffnm'', ''sp'']] fl))
               (\<lambda>proc. gmx proc [])) (\<lambda>_.
     iobind (gmx [''energy'', ''-f'', ''sp.edr'', ''-sum'', ''yes''] ''6 8'') (\<lambda>_.
     iobind (log_to ''coulomb.log'') (\<lambda>_.
     iobind (gmx [''energy'', ''-f'', ''sp.edr'', ''-sum'', ''yes''] ''5 7'') (\<lambda>_.
     iobind (log_to ''lj.log'') (\<lambda>_.
     iobind (if mode g = ''affinity''
             then iobind (chain_fold (coulomb_lj_chain g) [0..<length (chain_ids g)] (topol_of d))
                    (\<lambda>_. ret ())
             else ret ()) (\<lambda>_.
     emit (Chdir (maindir g))))))))))"

definition coulomb_lj :: "(string \<Rightarrow> string) \<Rightarrow> generator \<Rightarrow> unit io" where
  "coulomb_lj topol_of g =
     iobind (assert_minimized g) (\<lambda>_. iofor (wdlist g) (coulomb_lj_dir topol_of g))"

definition area :: "generator \<Rightarrow> unit io" where
  "area g =
     iobind (assert_minimized g) (\<lambda>_.
     let sasa = [''sasa'', ''-s'', ''confout.gro''] in
     iofor (wdlist g) (\<lambda>d.
       iobind (emit (Chdir d)) (\<lambda>_.
       iobind (if mode g = ''affinity''
               then gmx (sasa @ [''-n'', ''index.ndx'', ''-output'', ''10'', ''11'']) ''0''
               else gmx sasa ''0'') (\<lambda>_.
       emit (Chdir (maindir g))))))"

definition schlitter :: "generator \<Rightarrow> unit io" where
  "schlitter g =
     iobind (assert_minimized g) (\<lambda>_.
     let trjcat = [''trjcat'', ''-cat'', ''yes'', ''-f''];
         covar = [''covar'', ''-f'', ''trajout.xtc'', ''-nofit'', ''-nopbc'', ''-s''];
         anaeig = [''anaeig'', ''-v'', ''eigenvec.trr'', ''-entropy''];
         ensembles = repr g # mut_index g
     in
     iofor ensembles (\<lambda>en.
       iobind (emit (Chdir en)) (\<lambda>_.
       iobind (lift (len_gen g)) (\<lambda>N.
       let trrs = map (\<lambda>n. maindir g @ ''/'' @ en @ ''/'' @ str_nat (n + 1) @ ''/traj.trr'') [0..<N] in
       iobind (gmx (trjcat @ trrs) []) (\<lambda>_.
       iobind (gmx (covar @ [maindir g @ ''/'' @ en @ ''/1/confout.gro'']) ''0'') (\<lambda>_.
       iobind (gmx anaeig []) (\<lambda>_.
       iobind (log_to ''entropy.log'') (\<lambda>_.
       emit (Chdir (maindir g))))))))))"

definition solvation_chains :: "string \<Rightarrow> generator \<Rightarrow> unit io" where
  "solvation_chains pbe g =
     iofor [0..<length (chain_ids g)] (\<lambda>cn.
       let chaintpr = ''chain_'' @ chain_ids g ! cn @ ''.tpr'';
           lines = readlines pbe
       in
       iobind (emit (WriteFile ''gropbe.txt'' ((''in(tpr,'' @ chaintpr @ '')'') # lines))) (\<lambda>_.
       iobind (emit (Run [''gropbe'', ''gropbe.txt''] ''0'')) (\<lambda>_.
       log_to (''solvation_'' @ chain_ids g ! cn @ ''.log''))))"

definition solvation_dir :: "string \<Rightarrow> generator \<Rightarrow> string \<Rightarrow> unit io" where
  "solvation_dir pbe g d =
     iobind (emit (Chdir d)) (\<lambda>_.
     let intpr = ''in(tpr,'' @ d @ ''/sp.tpr\<newline>'' @ '')'';
         lines = readlines pbe
     in
     iobind (emit (WriteFile ''gropbe.txt'' (intpr # lines))) (\<lambda>_.
     let gropbe = [''gropbe'', ''gropbe.txt''];
         stdin_text = join '','' (map str_nat [0..<length (chain_ids g)])
     in
     iobind (emit (Run gropbe stdin_text)) (\<lambda>_.
     iobind (log_to ''solvation.log'') (\<lambda>_.
     iobind (if mode g = ''affinity'' then solvation_chains pbe g else ret ()) (\<lambda>_.
     emit (Chdir (maindir g)))))))"

definition solvation_energy :: "string \<Rightarrow> generator \<Rightarrow> unit io" where
  "solvation_energy pbe g = iofor (wdlist g) (solvation_dir pbe g)"

text \<open>The events of \<open>solvation_energy\<close> in one working directory, written out: the
  change of directory, the parameter file with the line for \<open>sp.tpr\<close> in front, the run
  of the solver, the log; in affinity mode the same three steps per chain; the return to
  the main directory.\<close>

definition solvation_chain_events :: "string \<Rightarrow> generator \<Rightarrow> nat \<Rightarrow> event list" where
  "solvation_chain_events pbe g cn =
     [WriteFile ''gropbe.txt''
        ((''in(tpr,'' @ ''chain_'' @ chain_ids g ! cn @ ''.tpr'' @ '')'') # readlines pbe),
      Run [''gropbe'', ''gropbe.txt''] ''0'',
      AppendLog (''solvation_'' @ chain_ids g ! cn @ ''.log'')]"

definition solvation_events :: "string \<Rightarrow> generator \<Rightarrow> string \<Rightarrow> event list" where
  "solvation_events pbe g d =
     [Chdir d,
      WriteFile ''gropbe.txt'' ((''in(tpr,'' @ d @ ''/sp.tpr\<newline>'' @ '')'') # readlines pbe),
      Run [''gropbe'', ''gropbe.txt''] (join '','' (map str_nat [0..<length (chain_ids g)])),
      AppendLog ''solvation.log'']
     @ (if mode g = ''affinity''
        then concat (map (solvation_chain_events pbe g) [0..<length (chain_ids g)])
        else [])
     @ [Chdir (maindir g)]"

section \<open>Numbers read from log files\<close>

text \<open>
  The values of the energy tables are Python floats. The model keeps the finite ones as
  exact rationals and has the two infinities and NaN beside them, so that arithmetic
  never raises; rounding and overflow are left out: a sum or a product of finite values
  is the exact one.
\<close>

datatype pyfloat = Fin rat | PInf | NInf | NaN

fun fneg :: "pyfloat \<Rightarrow> pyfloat" where
  "fneg (Fin a) = Fin (- a)"
| "fneg PInf = NInf"
| "fneg NInf = PInf"
| "fneg NaN = NaN"

fun fadd :: "pyfloat \<Rightarrow> pyfloat \<Rightarrow> pyfloat" where
  "fadd (Fin a) (Fin b) = Fin (a + b)"
| "fadd NaN y = NaN"
| "fadd x NaN = NaN"
| "fadd PInf NInf = NaN"
| "fadd NInf PInf = NaN"
| "fadd PInf y = PInf"
| "fadd NInf y = NInf"
| "fadd (Fin a) y = y"

definition fsub :: "pyfloat \<Rightarrow> pyfloat \<Rightarrow> pyfloat" where
  "fsub x y = fadd x (fneg y)"

definition fsign :: "pyfloat \<Rightarrow> rat" where
  "fsign x = (case x of Fin a \<Rightarrow> sgn a | PInf \<Rightarrow> 1 | NInf \<Rightarrow> - 1 | NaN \<Rightarrow> 0)"

definition fmul :: "pyfloat \<Rightarrow> pyfloat \<Rightarrow> pyfloat" where
  "fmul x y =
     (case (x, y) of
        (Fin a, Fin b) \<Rightarrow> Fin (a * b)
      | _ \<Rightarrow> if x = NaN \<or> y = NaN \<or> fsign x * fsign y = 0 then NaN
             else if 0 < fsign x * fsign y then PInf else NInf)"

text \<open>\<open>x / r\<close> for a constant \<open>r\<close> that is not zero (the 1000 of \<open>search_entropy\<close>, the
  number of values of a mean).\<close>

definition fover :: "pyfloat \<Rightarrow> rat \<Rightarrow> pyfloat" where
  "fover x r = (case x of Fin a \<Rightarrow> Fin (a / r) | _ \<Rightarrow> fmul x (Fin (sgn r)))"

text \<open>\<open>np.array(xs).sum()\<close> and \<open>np.array(xs).mean()\<close>; the mean of no value is NaN
  (numpy warns and does not raise).\<close>

definition fsum :: "pyfloat list \<Rightarrow> pyfloat" where
  "fsum xs = foldl fadd (Fin 0) xs"

definition mean :: "pyfloat list \<Rightarrow> pyfloat" where
  "mean xs = (if xs = [] then NaN else fover (fsum xs) (of_nat (length xs)))"

text \<open>\<open>s.index(pat)\<close> on strings: the position of the first occurrence, \<open>ValueError\<close>
  without one; \<open>pat in s\<close>.\<close>

fun str_index :: "string \<Rightarrow> string \<Rightarrow> py_error + nat" where
  "str_index [] pat = (if pat = [] then Inr 0 else Inl ValueError)"
| "str_index (c # cs) pat =
     (if take (length pat) (c # cs) = pat then Inr 0
      else ebind (str_index cs pat) (\<lambda>k. Inr (Suc k)))"

definition contains :: "string \<Rightarrow> string \<Rightarrow> bool" where
  "contains s pat = (case str_index s pat of Inl _ \<Rightarrow> False | Inr _ \<Rightarrow> True)"

text \<open>
  \<open>float(s)\<close> on ASCII text: blanks around the number are dropped; after an optional sign
  come \<open>nan\<close>, \<open>inf\<close> or \<open>infinity\<close> in any case, or a decimal number: digits with an
  optional point (digits on at least one side of it) and an optional exponent, where
  single underscores may stand between digits. Anything else is a \<open>ValueError\<close>.
\<close>

definition lower :: "char \<Rightarrow> char" where
  "lower c = (case map_of (zip ''ABCDEFGHIJKLMNOPQRSTUVWXYZ'' ''abcdefghijklmnopqrstuvwxyz'') c of
                None \<Rightarrow> c | Some l \<Rightarrow> l)"

definition digits_value :: "string \<Rightarrow> nat" where
  "digits_value ds = nat_of_digits (filter (\<lambda>c. c \<noteq> CHR ''_'') ds)"

definition digits_count :: "string \<Rightarrow> nat" where
  "digits_count ds = length (filter (\<lambda>c. c \<noteq> CHR ''_'') ds)"

definition unsigned :: "string \<Rightarrow> bool \<times> string" where
  "unsigned t = (case t of [] \<Rightarrow> (False, [])
                 | c # r \<Rightarrow> if c = CHR ''-'' then (True, r)
                           else if c = CHR ''+'' then (False, r) else (False, t))"

definition mantissa :: "string \<Rightarrow> py_error + rat" where
  "mantissa m =
     (let ip = takeWhile (\<lambda>c. c \<noteq> CHR ''.'') m;
          rest = dropWhile (\<lambda>c. c \<noteq> CHR ''.'') m;
          fp = drop 1 rest
      in if (ip = [] \<and> fp = []) \<or> (ip \<noteq> [] \<and> \<not> digits_ok ip) \<or> (fp \<noteq> [] \<and> \<not> digits_ok fp)
         then Inl ValueError
         else Inr (of_nat (digits_value ip) + of_nat (digits_value fp) / 10 ^ digits_count fp))"

definition exponent :: "string \<Rightarrow> py_error + int" where
  "exponent e =
     (let (neg, body) = unsigned e
      in if digits_ok body then Inr ((if neg then - 1 else 1) * int (digits_value body))
         else Inl ValueError)"

definition py_float :: "string \<Rightarrow> py_error + pyfloat" where
  "py_float s =
     (let (neg, body) = unsigned (strip s);
          low = map lower body
      in if low = ''nan'' then Inr NaN
         else if low = ''inf'' \<or> low = ''infinity'' then Inr (if neg then NInf else PInf)
         else
           ebind (mantissa (takeWhile (\<lambda>c. c \<noteq> CHR ''e'') low)) (\<lambda>m.
           ebind (case dropWhile (\<lambda>c. c \<noteq> CHR ''e'') low of
                    [] \<Rightarrow> Inr 0 | _ # e \<Rightarrow> exponent e) (\<lambda>x.
           Inr (Fin ((if neg then - 1 else 1) * m * (if 0 \<le> x then 10 ^ nat x else 1 / 10 ^ nat (- x)))))))"

section \<open>The tables of a DataCollector\<close>

text \<open>
  A pandas \<open>DataFrame\<close> of floats is given by its row labels, its column names and its
  cells. \<open>df[col][key]\<close> with a label raises \<open>KeyError\<close> for an unknown column or an unknown
  label; \<open>df[col][0]\<close> on a table whose labels are strings is the cell of the first row.
  \<open>df[col][key] = v\<close> writes the cell of the row with this label. The class writes only
  with labels taken from the index of the table it writes to; for a label outside the
  index pandas enlarges a temporary column and the table stays as it is, which is what
  the model returns. The labels of a table are taken to be distinct (a mutation list
  without repeated lines): with a repeated label pandas would read a sub-column where the
  model reads one cell.
\<close>

record frame =
  index :: "string list"
  columns :: "string list"
  cell :: "string \<Rightarrow> string \<Rightarrow> pyfloat"

definition get_cell :: "frame \<Rightarrow> string \<Rightarrow> string \<Rightarrow> py_error + pyfloat" where
  "get_cell df col key =
     (if col \<notin> set (columns df) then Inl KeyError
      else if key \<notin> set (index df) then Inl KeyError
      else Inr (cell df col key))"

definition get_pos :: "frame \<Rightarrow> string \<Rightarrow> nat \<Rightarrow> py_error + pyfloat" where
  "get_pos df col k =
     (if col \<notin> set (columns df) then Inl KeyError
      else if length (index df) \<le> k then Inl IndexError
      else Inr (cell df col (index df ! k)))"

definition set_cell :: "frame \<Rightarrow> string \<Rightarrow> string \<Rightarrow> pyfloat \<Rightarrow> py_error + frame" where
  "set_cell df col key v =
     (if col \<notin> set (columns df) then Inl KeyError
      else if key \<notin> set (index df) then Inr df
      else Inr (df\<lparr>cell := (cell df)(col := (cell df col)(key := v))\<rparr>))"

text \<open>\<open>pd.DataFrame(0.0, columns=cols, index=idx)\<close> and \<open>df -= s\<close>.\<close>

definition zeros :: "string list \<Rightarrow> string list \<Rightarrow> frame" where
  "zeros cols idx = \<lparr>index = idx, columns = cols, cell = (\<lambda>c k. Fin 0)\<rparr>"

definition sub_all :: "frame \<Rightarrow> pyfloat \<Rightarrow> frame" where
  "sub_all df s = df\<lparr>cell := (\<lambda>c k. fsub (cell df c k) s)\<rparr>"

text \<open>A \<open>for\<close> loop whose body updates a state and may raise.\<close>

fun efold :: "('a \<Rightarrow> 's \<Rightarrow> py_error + 's) \<Rightarrow> 'a list \<Rightarrow> 's \<Rightarrow> py_error + 's" where
  "efold f [] s = Inr s"
| "efold f (x # xs) s = ebind (f x s) (efold f xs)"

text \<open>
  The attributes of a DataCollector: \<open>c_mode\<close> is \<open>self.mode\<close>, \<open>c_n\<close> is \<open>self.n\<close>. The
  tables \<open>dG\<close> and \<open>ddG\<close> exist in stability mode only; reading a missing attribute
  raises \<open>AttributeError\<close>. \<open>__init__\<close> gets the generator and, as its second argument
  here, the column \<open>Mutation\<close> of the generator's \<open>mut_df\<close>, which it maps back to
  one-letter codes.
\<close>

record collector =
  c_mode :: string
  c_n :: nat
  G :: frame
  dG :: "frame option"
  ddG :: "frame option"

definition aa321 :: "(string \<times> char) list" where
  "aa321 = zip aa3 aa1"

definition term_columns :: "string list" where
  "term_columns = [''SOLV'', ''COUL'', ''LJ'', ''SAS'', ''-TS'']"

definition collector_init :: "generator \<Rightarrow> string list \<Rightarrow> py_error + collector" where
  "collector_init data_obj mutations =
     ebind (len_gen data_obj) (\<lambda>n.
     ebind (emap (dict_get aa321) mutations) (\<lambda>_.
     let idx = unpack [[repr data_obj], mut_index data_obj] in
     if mode data_obj = ''stability''
     then Inr \<lparr>c_mode = mode data_obj, c_n = n,
               G = zeros term_columns idx,
               dG = Some (zeros term_columns (drop 1 idx)),
               ddG = Some (zeros (''CALC'' # term_columns) (drop 1 idx))\<rparr>
     else Inr \<lparr>c_mode = mode data_obj, c_n = n,
               G = zeros [''SOLV'', ''COUL'', ''LJ'', ''PPIS'', ''PKA''] idx,
               dG = None, ddG = None\<rparr>))"

text \<open>Reading one cell of the energy table after a method that may have raised.\<close>

definition G_cell :: "py_error + collector \<Rightarrow> string \<Rightarrow> string \<Rightarrow> py_error + pyfloat" where
  "G_cell r col key = ebind r (\<lambda>c. get_cell (G c) col key)"

section \<open>DataCollector.search\_lj and DataCollector.search\_entropy\<close>

text \<open>
  Both methods visit the rows of the energy table in order, change into the directory of
  the row, run \<open>tail\<close> or \<open>head\<close> on log files and write one cell. The directories are
  taken to exist, and the decoded output of the program run in directory \<open>d\<close> is a
  parameter: \<open>lj_out d\<close> for \<open>tail -q -n 1\<close> on the files \<open>*/lj.log\<close> found there (the last
  line of each), \<open>chain_out d\<close> for the same on \<open>*/chain_*_lj.log\<close>, \<open>head_out d\<close> for
  \<open>head -n 1 entropy.log\<close>. The number of files is not compared with \<open>self.n\<close> anywhere.
\<close>

text \<open>\<open>[float(i.split()[1]) for i in out.split('\n') if len(i) > 0]\<close>.\<close>

definition lj_values :: "string \<Rightarrow> py_error + pyfloat list" where
  "lj_values out =
     emap (\<lambda>i. ebind (py_get (py_split i) 1) py_float)
       (filter (\<lambda>i. 0 < length i) (split_on CHR ''\<newline>'' out))"

text \<open>The lines with \<open>kJ/mol\<close>, and of each the number between the first \<open>y\<close> and
  \<open>kJ\<close>: \<open>float(i[:i.index('kJ')].split("y")[1])\<close>.\<close>

definition chain_values :: "string \<Rightarrow> py_error + pyfloat list" where
  "chain_values out =
     (let solv = filter (\<lambda>i. contains i ''kJ/mol'') (split_on CHR ''\<newline>'' out)
      in emap (\<lambda>i. ebind (str_index i ''kJ'')
                     (\<lambda>k. ebind (py_get (split_on CHR ''y'' (take k i)) 1) py_float)) solv)"

text \<open>One round of the loop of \<open>search_lj\<close>. In affinity mode the values of the chain
  logs replace the ones of \<open>lj.log\<close>, and their sum is subtracted from the whole table
  before the cell is written.\<close>

definition lj_row ::
  "string \<Rightarrow> (string \<Rightarrow> string) \<Rightarrow> (string \<Rightarrow> string) \<Rightarrow> string \<Rightarrow> frame \<Rightarrow> py_error + frame" where
  "lj_row md lj_out chain_out d g =
     ebind (lj_values (lj_out d)) (\<lambda>parsed.
     if md = ''affinity''
     then ebind (chain_values (chain_out d)) (\<lambda>parsed.
            set_cell (sub_all g (fsum parsed)) ''LJ'' d (mean parsed))
     else set_cell g ''LJ'' d (mean parsed))"

definition search_lj ::
  "(string \<Rightarrow> string) \<Rightarrow> (string \<Rightarrow> string) \<Rightarrow> collector \<Rightarrow> py_error + collector" where
  "search_lj lj_out chain_out c =
     ebind (efold (lj_row (c_mode c) lj_out chain_out) (index (G c)) (G c))
       (\<lambda>g. Inr (c\<lparr>G := g\<rparr>))"




section \<open>DataCollector.ddstability\<close>

text \<open>
  \<open>gxgtable\<close> is the table read from the csv file of the tripeptides, with the motifs
  \<open>GAG\<close>, \<open>GCG\<close>, ... as labels. For each row of \<open>ddG\<close> the method computes the five terms
  and their sum; the result holds the collector after the call and the table that
  \<open>to_csv\<close> writes to \<open>ddG.csv\<close>. The variable \<open>aa_wt\<close> is built from the last character
  of the label and \<open>aa_mut\<close> from the first character after the chain prefix.
\<close>

definition motif :: "char \<Rightarrow> string" where
  "motif x = ''G'' @ [x] @ ''G''"

definition ddterm ::
  "frame \<Rightarrow> frame \<Rightarrow> string \<Rightarrow> pyfloat \<Rightarrow> string \<Rightarrow> string \<Rightarrow> string \<Rightarrow> frame \<Rightarrow> py_error + frame" where
  "ddterm g gxgtable col coef i aa_mut aa_wt dd =
     ebind (get_cell g col i) (\<lambda>gi.
     ebind (get_pos g col 0) (\<lambda>g0.
     ebind (get_cell gxgtable col aa_mut) (\<lambda>xm.
     ebind (get_cell gxgtable col aa_wt) (\<lambda>xw.
     set_cell dd col i (fmul coef (fadd (fsub (fsub gi g0) xm) xw))))))"

definition ddstability_row ::
  "frame \<Rightarrow> frame \<Rightarrow> pyfloat \<Rightarrow> pyfloat \<Rightarrow> pyfloat \<Rightarrow> pyfloat \<Rightarrow> string \<Rightarrow> frame \<Rightarrow> py_error + frame" where
  "ddstability_row g gxgtable alpha beta gamma tau i dd =
     ebind (py_get (split_on CHR ''_'' i) (- 1)) (\<lambda>w.
     ebind (py_get w (- 1)) (\<lambda>cw.
     ebind (py_get (split_on CHR ''_'' i) (- 1)) (\<lambda>m.
     ebind (py_get m 0) (\<lambda>cm.
     let aa_wt = motif cw; aa_mut = motif cm in
     ebind (ddterm g gxgtable ''SOLV'' alpha i aa_mut aa_wt dd) (\<lambda>dd1.
     ebind (ddterm g gxgtable ''COUL'' alpha i aa_mut aa_wt dd1) (\<lambda>dd2.
     ebind (ddterm g gxgtable ''LJ'' beta i aa_mut aa_wt dd2) (\<lambda>dd3.
     ebind (ddterm g gxgtable ''SAS'' gamma i aa_mut aa_wt dd3) (\<lambda>dd4.
     ebind (ddterm g gxgtable ''-TS'' tau i aa_mut aa_wt dd4) (\<lambda>dd5.
     ebind (get_cell dd5 ''SOLV'' i) (\<lambda>a.
     ebind (get_cell dd5 ''COUL'' i) (\<lambda>b.
     ebind (get_cell dd5 ''LJ'' i) (\<lambda>c.
     ebind (get_cell dd5 ''SAS'' i) (\<lambda>d.
     ebind (get_cell dd5 ''-TS'' i) (\<lambda>e.
     set_cell dd5 ''CALC'' i (fadd (fadd (fadd (fadd a b) c) d) e)))))))))))))))"

definition ddstability ::
  "frame \<Rightarrow> pyfloat \<Rightarrow> pyfloat \<Rightarrow> pyfloat \<Rightarrow> pyfloat \<Rightarrow> collector \<Rightarrow>
   py_error + collector \<times> frame" where
  "ddstability gxgtable alpha beta gamma tau c =
     (case ddG c of
        None \<Rightarrow> Inl AttributeError
      | Some dd \<Rightarrow>
          ebind (efold (ddstability_row (G c) gxgtable alpha beta gamma tau) (index dd) dd)
            (\<lambda>dd'. Inr (c\<lparr>ddG := Some dd'\<rparr>, dd')))"

text \<open>Reading one cell of the table written by \<open>ddstability\<close>.\<close>

definition table_cell :: "py_error + collector \<times> frame \<Rightarrow> string \<Rightarrow> string \<Rightarrow> py_error + pyfloat" where
  "table_cell r col key = ebind r (\<lambda>(c, out). get_cell out col key)"

text \<open>
  The term of column \<open>T\<close> and row \<open>i\<close> in the words of the specification: the coefficient
  times the value of the row, minus the one of the reference row, minus the tripeptide
  value of the new residue, plus the tripeptide value of the original residue. The
  original residue is the first letter after the chain prefix of the label, the new one
  its last letter.
\<close>

definition spec_term :: "frame \<Rightarrow> frame \<Rightarrow> string \<Rightarrow> pyfloat \<Rightarrow> string \<Rightarrow> pyfloat" where
  "spec_term g gxgtable T coef i =
     (let orig = hd (last (split_on CHR ''_'' i)); new = last i
      in fmul coef (fadd (fsub (fsub (cell g T i) (cell g T (hd (index g))))
                               (cell gxgtable T (motif new)))
                         (cell gxgtable T (motif orig))))"

subsection \<open>What a run of the loops writes\<close>

text \<open>The table with one more cell written, and the conditions under which a term and
  a whole row of \<open>ddstability\<close> can be computed.\<close>

definition upd :: "frame \<Rightarrow> string \<Rightarrow> string \<Rightarrow> pyfloat \<Rightarrow> frame" where
  "upd df col key v = df\<lparr>cell := (cell df)(col := (cell df col)(key := v))\<rparr>"

definition term_ok :: "frame \<Rightarrow> frame \<Rightarrow> string \<Rightarrow> string \<Rightarrow> string \<Rightarrow> string \<Rightarrow> bool" where
  "term_ok g x col i am aw =
     (col \<in> set (columns g) \<and> i \<in> set (index g) \<and> col \<in> set (columns x) \<and>
      am \<in> set (index x) \<and> aw \<in> set (index x))"

definition term_value :: "frame \<Rightarrow> frame \<Rightarrow> string \<Rightarrow> pyfloat \<Rightarrow> string \<Rightarrow> string \<Rightarrow> string \<Rightarrow> pyfloat" where
  "term_value g x col coef i am aw =
     fmul coef (fadd (fsub (fsub (cell g col i) (cell g col (index g ! 0))) (cell x col am))
                     (cell x col aw))"

definition row_ok :: "frame \<Rightarrow> frame \<Rightarrow> string \<Rightarrow> frame \<Rightarrow> bool" where
  "row_ok g x i dd =
     (let w = last (split_on CHR ''_'' i) in
      w \<noteq> [] \<and> i \<in> set (index dd) \<and> ''CALC'' \<in> set (columns dd) \<and>
      list_all (\<lambda>col. term_ok g x col i (motif (hd w)) (motif (last w)) \<and>
                      col \<in> set (columns dd)) term_columns)"

definition row_write ::
  "frame \<Rightarrow> frame \<Rightarrow> pyfloat \<Rightarrow> pyfloat \<Rightarrow> pyfloat \<Rightarrow> pyfloat \<Rightarrow> string \<Rightarrow> frame \<Rightarrow> frame" where
  "row_write g x alpha beta gamma tau i dd =
     (let w = last (split_on CHR ''_'' i); am = motif (hd w); aw = motif (last w);
          vs = term_value g x ''SOLV'' alpha i am aw;
          vc = term_value g x ''COUL'' alpha i am aw;
          vl = term_value g x ''LJ'' beta i am aw;
          va = term_value g x ''SAS'' gamma i am aw;
          vt = term_value g x ''-TS'' tau i am aw
      in upd (upd (upd (upd (upd (upd dd ''SOLV'' i vs) ''COUL'' i vc) ''LJ'' i vl)
                 ''SAS'' i va) ''-TS'' i vt)
           ''CALC'' i (fadd (fadd (fadd (fadd vs vc) vl) va) vt))"

definition is_written :: "string \<Rightarrow> bool" where
  "is_written c = (c = ''CALC'' \<or> c = ''SOLV'' \<or> c = ''COUL'' \<or> c = ''LJ'' \<or> c = ''SAS'' \<or> c = ''-TS'')"

definition row_cell ::
  "frame \<Rightarrow> frame \<Rightarrow> pyfloat \<Rightarrow> pyfloat \<Rightarrow> pyfloat \<Rightarrow> pyfloat \<Rightarrow> string \<Rightarrow> string \<Rightarrow> pyfloat" where
  "row_cell g x alpha beta gamma tau c i =
     cell (row_write g x alpha beta gamma tau i (zeros [] [])) c i"

text \<open>The six written columns of the rows \<open>keys\<close> replaced by the values \<open>v\<close>; one column
  of the rows \<open>keys\<close> replaced by the values \<open>w\<close>.\<close>

definition overwrite :: "(string \<Rightarrow> string \<Rightarrow> pyfloat) \<Rightarrow> string list \<Rightarrow> frame \<Rightarrow> frame" where
  "overwrite v keys dd =
     dd\<lparr>cell := (\<lambda>c k. if k \<in> set keys \<and> is_written c then v c k else cell dd c k)\<rparr>"

definition column_set :: "string \<Rightarrow> string list \<Rightarrow> (string \<Rightarrow> pyfloat) \<Rightarrow> frame \<Rightarrow> frame" where
  "column_set col keys w g =
     g\<lparr>cell := (\<lambda>c k. if c = col \<and> k \<in> set keys then w k else cell g c k)\<rparr>"

text \<open>A line of the output of \<open>tail\<close> that \<open>search_lj\<close> can read: not empty, and its
  second word is the number \<open>r l\<close>.\<close>

definition lj_line_ok :: "(string \<Rightarrow> rat) \<Rightarrow> string \<Rightarrow> bool" where
  "lj_line_ok r l = (l \<noteq> [] \<and> CHR ''\<newline>'' \<notin> set l
      \<and> ebind (py_get (py_split l) 1) py_float = Inr (Fin (r l)))"

subsection \<open>Example collectors\<close>

text \<open>The collector that \<open>__init__\<close> builds from the generator \<open>g5\<close>, a table of
  tripeptide values, and the table \<open>ddstability\<close> computes from the two with all
  coefficients 1.\<close>

definition coll5 :: collector where
  "coll5 = \<lparr>c_mode = ''stability'', c_n = 5,
     G = zeros term_columns [''1stn'', ''A20G'', ''B_H10I''],
     dG = Some (zeros term_columns [''A20G'', ''B_H10I'']),
     ddG = Some (zeros (''CALC'' # term_columns) [''A20G'', ''B_H10I''])\<rparr>"

definition gxg_ex :: frame where
  "gxg_ex = \<lparr>index = map motif aa1, columns = term_columns,
     cell = (\<lambda>c k. if k = ''GGG'' then Fin 3 else if k = ''GAG'' then Fin 1 else Fin 0)\<rparr>"

definition ddG5 :: frame where
  "ddG5 = overwrite (row_cell (G coll5) gxg_ex (Fin 1) (Fin 1) (Fin 1) (Fin 1))
            [''A20G'', ''B_H10I''] (zeros (''CALC'' # term_columns) [''A20G'', ''B_H10I''])"

text \<open>A collector in affinity mode, and outputs of \<open>tail\<close> and \<open>head\<close>, the same in every
  directory but for the entropy of the wildtype.\<close>

definition coll_aff :: collector where
  "coll_aff = \<lparr>c_mode = ''affinity'', c_n = 5,
     G = zeros [''SOLV'', ''COUL'', ''LJ'', ''PPIS'', ''PKA''] [''1stn'', ''A20G''],
     dG = None, ddG = None\<rparr>"

definition lj_tails :: "string list" where
  "lj_tails = [''LJ -120.0 0.5'', ''LJ -118.5 0.4'', ''LJ -121.2 0.6'']"

definition lj_tail_value :: "string \<Rightarrow> rat" where
  "lj_tail_value l =
     (if l = ''LJ -120.0 0.5'' then - 120 else if l = ''LJ -118.5 0.4'' then - 118.5 else - 121.2)"

definition lj_ex :: "string \<Rightarrow> string" where
  "lj_ex d = ''LJ -120.0 0.5\<newline>LJ -118.5 0.4\<newline>LJ -121.2 0.6\<newline>''"

definition chain_ex :: "string \<Rightarrow> string" where
  "chain_ex d = ''Total energy -50.0 kJ/mol\<newline>''"


section \<open>Facts about the primitives\<close>

lemma ebind_Inr [simp]: "ebind (Inr x) f = f x"
  by (simp add: ebind_def)

lemma ebind_Inl [simp]: "ebind (Inl e) f = Inl e"
  by (simp add: ebind_def)

lemma emap_Inr: "(\<And>x. x \<in> set xs \<Longrightarrow> f x = Inr (g x)) \<Longrightarrow> emap f xs = Inr (map g xs)"
  by (induction xs) simp_all

lemma readlines_aux_line:
  "CHR ''\<newline>'' \<notin> set l \<Longrightarrow>
   readlines_aux cur (l @ CHR ''\<newline>'' # rest) = (cur @ l @ ''\<newline>'') # readlines_aux [] rest"
  by (induction l arbitrary: cur) auto

lemma readlines_unlines:
  "(\<And>l. l \<in> set ls \<Longrightarrow> CHR ''\<newline>'' \<notin> set l) \<Longrightarrow>
   readlines (unlines ls) = map (\<lambda>l. l @ ''\<newline>'') ls"
  unfolding readlines_def unlines_def
  by (induction ls) (simp_all add: readlines_aux_line)

lemma split_on_no_sep: "sep \<notin> set l \<Longrightarrow> split_on sep (l @ sep # rest) = l # split_on sep rest"
  by (induction l) auto

lemma isdigit_facts: "isdigit c \<Longrightarrow> c \<noteq> CHR ''_'' \<and> c \<noteq> CHR ''\<newline>'' \<and> \<not> isspace c \<and> c \<noteq> CHR ''-'' \<and> c \<noteq> CHR ''+''"
  by (auto simp: isdigit_def isspace_def)

lemma aa1_facts: "t \<in> set aa1 \<Longrightarrow> t \<noteq> CHR ''_'' \<and> t \<noteq> CHR ''\<newline>'' \<and> \<not> isdigit t"
  by (auto simp: aa1_def isdigit_def)

lemma aa123_total: "t \<in> set aa1 \<Longrightarrow> \<exists>m. dict_get aa123 t = Inr m"
  by (auto simp: aa1_def aa123_def aa3_def dict_get_def py_split_def isspace_def)

lemma mut_core_shape:
  assumes "mut_core s"
  obtains a ds t where "s = a # ds @ [t]" "ds \<noteq> []" "list_all isdigit ds" "t \<in> set aa1"
    "\<not> isdigit a" "a \<noteq> CHR ''_''" "a \<noteq> CHR ''\<newline>''"
proof -
  from assms obtain a r where s: "s = a # r" and a: "\<not> isdigit a" "a \<noteq> CHR ''_''" "a \<noteq> CHR ''\<newline>''"
    and r: "2 \<le> length r" "list_all isdigit (butlast r)" "last r \<in> set aa1"
    by (auto simp: mut_core_def split: list.splits)
  from r(1) have "r \<noteq> []" by auto
  then have "r = butlast r @ [last r]" by simp
  moreover from r(1) have "butlast r \<noteq> []" by (cases r rule: rev_cases) auto
  ultimately show ?thesis using that[of a "butlast r" "last r"] s a r by simp
qed

lemma digit_not_us: "isdigit c \<Longrightarrow> c \<noteq> CHR ''_''"
  by (simp add: isdigit_facts)

lemma digits_ok_all: "ds \<noteq> [] \<Longrightarrow> list_all isdigit ds \<Longrightarrow> digits_ok ds"
proof (induction ds rule: digits_ok.induct)
  case 1 then show ?case by simp
next
  case (2 c) then show ?case by simp
next
  case (3 c d cs)
  then have "d \<noteq> CHR ''_''" by (simp add: digit_not_us)
  with 3 show ?case by simp
qed

lemma strip_digits:
  assumes ne: "ds \<noteq> []" and d: "list_all isdigit ds"
  shows "strip ds = ds"
proof -
  from ne d have "isdigit (hd ds)" "isdigit (last ds)"
    by (simp_all add: list_all_iff)
  then have h: "\<not> isspace (hd ds)" "\<not> isspace (last ds)"
    by (simp_all add: isdigit_facts)
  from ne h(1) have a: "dropWhile isspace ds = ds" by (cases ds) simp_all
  from ne h(2) have b: "dropWhile isspace (rev ds) = rev ds"
    by (cases ds rule: rev_cases) simp_all
  show ?thesis by (simp add: strip_def a b)
qed

lemma py_int_digits:
  assumes "ds \<noteq> []" "list_all isdigit ds"
  shows "py_int ds = Inr (int (nat_of_digits ds))"
proof -
  from assms(2) have "\<And>c. c \<in> set ds \<Longrightarrow> c \<noteq> CHR ''_''"
    by (simp add: list_all_iff digit_not_us)
  then have f: "filter (\<lambda>c. c \<noteq> CHR ''_'') ds = ds"
    by (simp add: filter_id_conv)
  from assms obtain c r where ds: "ds = c # r" and dc: "isdigit c" by (cases ds) simp_all
  from dc have c: "c \<noteq> CHR ''-''" "c \<noteq> CHR ''+''" by (simp_all add: isdigit_facts)
  have ok: "digits_ok ds" by (rule digits_ok_all[OF assms])
  have st: "strip ds = ds" by (rule strip_digits[OF assms])
  have "py_int ds = (if digits_ok ds then Inr (int (nat_of_digits (filter (\<lambda>c. c \<noteq> CHR ''_'') ds))) else Inl ValueError)"
    unfolding py_int_def st using c by (simp add: ds Let_def)
  then show ?thesis by (simp add: ok f)
qed

lemma filter_core:
  assumes "list_all isdigit ds" "\<not> isdigit a" "\<not> isdigit t"
  shows "filter isdigit (a # ds @ [t]) = ds"
proof -
  from assms(1) have "filter isdigit ds = ds" by (simp add: list_all_iff filter_id_conv)
  with assms(2,3) show ?thesis by simp
qed

lemma run_core:
  assumes "list_all isdigit ds" "\<not> isdigit t"
  shows "takeWhile isdigit (ds @ [t] ) = ds"
  using assms by (induction ds) simp_all

lemma core_facts:
  assumes s: "s = a # ds @ [t]" and ds: "ds \<noteq> []" "list_all isdigit ds" and t: "t \<in> set aa1"
    and a: "\<not> isdigit a" "a \<noteq> CHR ''_''" "a \<noteq> CHR ''\<newline>''"
  shows "CHR ''_'' \<notin> set s" "CHR ''\<newline>'' \<notin> set s"
    "filter isdigit s = ds" "int_in_str s = Inr (spec_position s)"
    "rev (takeWhile (\<lambda>c. \<not> isdigit c) s) = [a]"
    "takeWhile isdigit (dropWhile (\<lambda>c. \<not> isdigit c) s) = ds"
proof -
  from t have t': "t \<noteq> CHR ''_''" "t \<noteq> CHR ''\<newline>''" "\<not> isdigit t"
    by (simp_all add: aa1_facts)
  from ds(2) have dd: "\<And>c. c \<in> set ds \<Longrightarrow> isdigit c" by (simp add: list_all_iff)
  then have d': "CHR ''_'' \<notin> set ds" "CHR ''\<newline>'' \<notin> set ds"
    using isdigit_facts by blast+
  show "CHR ''_'' \<notin> set s" using s a t' d' by auto
  show "CHR ''\<newline>'' \<notin> set s" using s a t' d' by auto
  show f: "filter isdigit s = ds" unfolding s by (rule filter_core[OF ds(2) a(1) t'(3)])
  from ds obtain d r where dr: "ds = d # r" "isdigit d" by (cases ds) simp_all
  have tw: "takeWhile (\<lambda>c. \<not> isdigit c) s = [a]" unfolding s using a(1) dr by simp
  show "rev (takeWhile (\<lambda>c. \<not> isdigit c) s) = [a]" by (simp add: tw)
  have dw: "dropWhile (\<lambda>c. \<not> isdigit c) s = ds @ [t]" unfolding s using a(1) dr by simp
  show r: "takeWhile isdigit (dropWhile (\<lambda>c. \<not> isdigit c) s) = ds"
    unfolding dw by (rule run_core[OF ds(2) t'(3)])
  show "int_in_str s = Inr (spec_position s)"
    by (simp add: int_in_str_def f spec_position_def r py_int_digits[OF ds])
qed

lemma py_get_0: "py_get (x # xs) 0 = Inr x"
  by (simp add: py_get_def)

lemma py_get_last: "xs \<noteq> [] \<Longrightarrow> py_get xs (- 1) = Inr (last xs)"
proof -
  assume ne: "xs \<noteq> []"
  then have l: "1 \<le> length xs" by (cases xs) simp_all
  then have "nat (int (length xs) + - 1) = length xs - 1" by simp
  with ne l show ?thesis by (simp add: py_get_def last_conv_nth)
qed

lemma line_facts:
  assumes "mut_format l"
  shows "CHR ''\<newline>'' \<notin> set l" "l \<noteq> []"
    "(if CHR ''_'' \<in> set l then ebind (py_get l 0) (\<lambda>c. Inr [c]) else Inr []) = Inr (spec_chain l)"
    "(if CHR ''_'' \<notin> set l then ebind (py_get l 0) (\<lambda>c. Inr [c])
      else ebind (py_index l CHR ''_'') (\<lambda>k. ebind (py_get l (int k + 1)) (\<lambda>c. Inr [c])))
     = Inr (spec_original l)"
    "int_in_str l = Inr (spec_position l)"
    "\<exists>m. dict_get aa123 (last l) = Inr m"
proof -
  from assms obtain c u r where l: "l = c # u # r"
    by (cases l rule: list.exhaust[case_product list.exhaust]) (auto simp: mut_format_def split: list.splits)
  show "l \<noteq> []" by (simp add: l)
  consider (chain) "u = CHR ''_''" "\<not> isdigit c" "c \<noteq> CHR ''_''" "c \<noteq> CHR ''\<newline>''" "mut_core r"
    | (plain) "u \<noteq> CHR ''_''" "mut_core l"
    using assms by (auto simp: mut_format_def l split: if_splits)
  then have "CHR ''\<newline>'' \<notin> set l \<and>
    (if CHR ''_'' \<in> set l then ebind (py_get l 0) (\<lambda>c. Inr [c]) else Inr []) = Inr (spec_chain l) \<and>
    (if CHR ''_'' \<notin> set l then ebind (py_get l 0) (\<lambda>c. Inr [c])
      else ebind (py_index l CHR ''_'') (\<lambda>k. ebind (py_get l (int k + 1)) (\<lambda>c. Inr [c])))
     = Inr (spec_original l) \<and>
    int_in_str l = Inr (spec_position l) \<and> (\<exists>m. dict_get aa123 (last l) = Inr m)"
  proof cases
    case plain
    from plain(2) obtain a ds t where s: "l = a # ds @ [t]" and p: "ds \<noteq> []" "list_all isdigit ds"
      "t \<in> set aa1" "\<not> isdigit a" "a \<noteq> CHR ''_''" "a \<noteq> CHR ''\<newline>''"
      by (rule mut_core_shape)
    note cf = core_facts[OF s p]
    have "spec_chain l = []" by (simp add: spec_chain_def cf(1))
    moreover have "spec_original l = [a]" by (simp add: spec_original_def cf(5))
    moreover have "py_get l 0 = Inr a" by (simp add: s py_get_0)
    moreover have "last l = t" by (simp add: s)
    ultimately show ?thesis using cf(1,2,4) aa123_total[OF p(3)] by simp
  next
    case chain
    from chain(5) obtain a ds t where s: "r = a # ds @ [t]" and p: "ds \<noteq> []" "list_all isdigit ds"
      "t \<in> set aa1" "\<not> isdigit a" "a \<noteq> CHR ''_''" "a \<noteq> CHR ''\<newline>''"
      by (rule mut_core_shape)
    note cf = core_facts[OF s p]
    have l': "l = c # CHR ''_'' # r" by (simp add: l chain(1))
    have in_l: "CHR ''_'' \<in> set l" by (simp add: l')
    have "spec_chain l = [c]" using chain(3) by (simp add: spec_chain_def l')
    moreover have "py_get l 0 = Inr c" by (simp add: l' py_get_0)
    moreover have "py_index l CHR ''_'' = Inr 1" using chain(3) by (simp add: l')
    moreover have "py_get l (int 1 + 1) = Inr a" by (simp add: l' s py_get_def)
    moreover have "spec_original l = [a]"
    proof -
      have "\<not> isdigit CHR ''_''" by (simp add: isdigit_def)
      then have "takeWhile (\<lambda>c. \<not> isdigit c) l = c # CHR ''_'' # takeWhile (\<lambda>c. \<not> isdigit c) r"
        using chain(2) by (simp add: l')
      moreover from cf(5) have "takeWhile (\<lambda>c. \<not> isdigit c) r = [a]"
        by (metis rev_rev_ident rev_singleton_conv)
      ultimately show ?thesis by (simp add: spec_original_def)
    qed
    moreover have "int_in_str l = Inr (spec_position l)"
    proof -
      have nd: "\<not> isdigit CHR ''_''" by (simp add: isdigit_def)
      have "filter isdigit l = filter isdigit r" using chain(2) nd by (simp add: l')
      moreover have "dropWhile (\<lambda>c. \<not> isdigit c) l = dropWhile (\<lambda>c. \<not> isdigit c) r"
        using chain(2) nd by (simp add: l')
      ultimately show ?thesis using cf(4) by (simp add: int_in_str_def spec_position_def)
    qed
    moreover have "last l = t" by (simp add: l' s)
    moreover have "CHR ''\<newline>'' \<notin> set l" using cf(2) chain(4) by (simp add: l')
    ultimately show ?thesis using in_l aa123_total[OF p(3)] by simp
  qed
  then show "CHR ''\<newline>'' \<notin> set l"
    "(if CHR ''_'' \<in> set l then ebind (py_get l 0) (\<lambda>c. Inr [c]) else Inr []) = Inr (spec_chain l)"
    "(if CHR ''_'' \<notin> set l then ebind (py_get l 0) (\<lambda>c. Inr [c])
      else ebind (py_index l CHR ''_'') (\<lambda>k. ebind (py_get l (int k + 1)) (\<lambda>c. Inr [c])))
     = Inr (spec_original l)"
    "int_in_str l = Inr (spec_position l)"
    "\<exists>m. dict_get aa123 (last l) = Inr m"
    by blast+
qed

lemma emap_map_Inr:
  "(\<And>x. x \<in> set xs \<Longrightarrow> f (h x) = Inr (g x)) \<Longrightarrow> emap f (map h xs) = Inr (map g xs)"
  by (induction xs) simp_all

lemma zip4_map:
  "map (\<lambda>(l, c, a, r, m). R l c a r m)
     (zip xs (zip (map f1 xs) (zip (map f2 xs) (zip (map f3 xs) (map f4 xs)))))
   = map (\<lambda>l. R l (f1 l) (f2 l) (f3 l) (f4 l)) xs"
  by (induction xs) simp_all

lemma parse_mutlist_lines:
  assumes "list_all mut_format lines"
  shows "parse_mutlist (unlines lines) =
           Inr (map (\<lambda>l. \<lparr>label = l, Chain = spec_chain l, AA = spec_original l,
                           Residue = spec_position l, Mutation = target_of l\<rparr>) lines)"
    and "emap spec_mutation lines =
           Inr (map (\<lambda>l. \<lparr>label = l, Chain = spec_chain l, AA = spec_original l,
                           Residue = spec_position l, Mutation = target_of l\<rparr>) lines)"
proof -
  have fmt: "\<And>l. l \<in> set lines \<Longrightarrow> mut_format l"
    using assms by (simp add: list_all_iff)
  have tgt: "\<And>l. l \<in> set lines \<Longrightarrow> dict_get aa123 (last l) = Inr (target_of l)"
  proof -
    fix l assume "l \<in> set lines"
    then obtain m where "dict_get aa123 (last l) = Inr m"
      using line_facts(6)[OF fmt] by blast
    then show "dict_get aa123 (last l) = Inr (target_of l)" by (simp add: target_of_def)
  qed
  have rl: "readlines (unlines lines) = map (\<lambda>l. l @ ''\<newline>'') lines"
    by (rule readlines_unlines) (rule line_facts(1)[OF fmt])
  have s0: "\<And>l. l \<in> set lines \<Longrightarrow> py_get (split_on CHR ''\<newline>'' (l @ ''\<newline>'')) 0 = Inr l"
    using line_facts(1)[OF fmt] by (simp add: split_on_no_sep py_get_0)
  have m0: "emap (\<lambda>mut. py_get (split_on CHR ''\<newline>'' mut) 0) (readlines (unlines lines)) = Inr lines"
    unfolding rl using emap_map_Inr[of lines "\<lambda>mut. py_get (split_on CHR ''\<newline>'' mut) 0" "\<lambda>l. l @ ''\<newline>''" "\<lambda>l. l", OF s0]
    by simp
  have m1: "emap (\<lambda>i. if CHR ''_'' \<in> set i then ebind (py_get i 0) (\<lambda>c. Inr [c]) else Inr []) lines
            = Inr (map spec_chain lines)"
    by (rule emap_Inr) (rule line_facts(3)[OF fmt])
  have m2: "emap (\<lambda>i. if CHR ''_'' \<notin> set i then ebind (py_get i 0) (\<lambda>c. Inr [c])
                      else ebind (py_index i CHR ''_'')
                             (\<lambda>k. ebind (py_get i (int k + 1)) (\<lambda>c. Inr [c]))) lines
            = Inr (map spec_original lines)"
    by (rule emap_Inr) (rule line_facts(4)[OF fmt])
  have m3: "emap int_in_str lines = Inr (map spec_position lines)"
    by (rule emap_Inr) (rule line_facts(5)[OF fmt])
  have m4: "emap (\<lambda>i. ebind (py_get i (- 1)) (dict_get aa123)) lines = Inr (map target_of lines)"
    by (rule emap_Inr) (simp add: py_get_last[OF line_facts(2)[OF fmt]] tgt)
  show "parse_mutlist (unlines lines) =
           Inr (map (\<lambda>l. \<lparr>label = l, Chain = spec_chain l, AA = spec_original l,
                           Residue = spec_position l, Mutation = target_of l\<rparr>) lines)"
    unfolding parse_mutlist_def m0 ebind_Inr m1 m2 m3 m4
    by (simp only: sum.inject zip4_map)
  show "emap spec_mutation lines =
           Inr (map (\<lambda>l. \<lparr>label = l, Chain = spec_chain l, AA = spec_original l,
                           Residue = spec_position l, Mutation = target_of l\<rparr>) lines)"
    by (rule emap_Inr) (simp add: spec_mutation_def line_facts(2)[OF fmt] tgt)
qed

subsection \<open>Claim C2: the mutation parser\<close>

text \<open>
  C2, as stated, fails: the chain column is the first character of the line, not the text
  before the underscore, so a chain name of two characters is cut.
\<close>

theorem parse_mutlist_chain_counterexample:
  "parse_mutlist ''AB_H10I\<newline>'' =
     Inr [\<lparr>label = ''AB_H10I'', Chain = ''A'', AA = ''H'', Residue = 10, Mutation = ''ILE''\<rparr>]
   \<and> spec_chain ''AB_H10I'' = ''AB''"
  by (simp add: parse_mutlist_def readlines_def py_get_def int_in_str_def py_int_def strip_def
      isdigit_def isspace_def nat_of_digits_def digit_val_def dict_get_def aa123_def aa1_def
      aa3_def py_split_def spec_chain_def)

text \<open>
  C2, amended: for every mutation list whose lines have the documented format (an optional
  chain of one character followed by an underscore, one original residue letter, a run of
  digits, one target letter of the 20-entry table), each line ended by a newline,
  \<open>parse_mutlist\<close> returns one record per line whose chain is the text before the
  underscore (empty without one), whose original residue is the character just before the
  first digit, whose position is the digit run read in base 10, and whose target is the
  three-letter code of the last character; in particular ``A20G'' gives
  (chain empty, A, 20, GLY) and ``B\_H10I'' gives (B, H, 10, ILE).
\<close>

theorem parse_mutlist_documented_format:
  assumes "list_all mut_format lines"
  shows "parse_mutlist (unlines lines) = emap spec_mutation lines
       \<and> (\<exists>rs. parse_mutlist (unlines lines) = Inr rs \<and> length rs = length lines)
       \<and> parse_mutlist ''A20G\<newline>'' =
           Inr [\<lparr>label = ''A20G'', Chain = [], AA = ''A'', Residue = 20, Mutation = ''GLY''\<rparr>]
       \<and> parse_mutlist ''B_H10I\<newline>'' =
           Inr [\<lparr>label = ''B_H10I'', Chain = ''B'', AA = ''H'', Residue = 10, Mutation = ''ILE''\<rparr>]"
proof -
  have a: "parse_mutlist (unlines lines) = emap spec_mutation lines"
    by (simp add: parse_mutlist_lines[OF assms])
  have b: "\<exists>rs. parse_mutlist (unlines lines) = Inr rs \<and> length rs = length lines"
    by (simp add: parse_mutlist_lines(1)[OF assms])
  have c: "parse_mutlist ''A20G\<newline>'' =
           Inr [\<lparr>label = ''A20G'', Chain = [], AA = ''A'', Residue = 20, Mutation = ''GLY''\<rparr>]"
    by (simp add: parse_mutlist_def readlines_def py_get_def int_in_str_def py_int_def strip_def
      isdigit_def isspace_def nat_of_digits_def digit_val_def dict_get_def aa123_def aa1_def
      aa3_def py_split_def)
  have d: "parse_mutlist ''B_H10I\<newline>'' =
           Inr [\<lparr>label = ''B_H10I'', Chain = ''B'', AA = ''H'', Residue = 10, Mutation = ''ILE''\<rparr>]"
    by (simp add: parse_mutlist_def readlines_def py_get_def int_in_str_def py_int_def strip_def
      isdigit_def isspace_def nat_of_digits_def digit_val_def dict_get_def aa123_def aa1_def
      aa3_def py_split_def)
  from a b c d show ?thesis by blast
qed

theorem parse_mutlist_documented_format_witness:
  "list_all mut_format [''A20G'', ''B_H10I'']
   \<and> parse_mutlist (unlines [''A20G'', ''B_H10I'']) = emap spec_mutation [''A20G'', ''B_H10I'']
   \<and> emap spec_mutation [''A20G'', ''B_H10I''] =
       Inr [\<lparr>label = ''A20G'', Chain = [], AA = ''A'', Residue = 20, Mutation = ''GLY''\<rparr>,
            \<lparr>label = ''B_H10I'', Chain = ''B'', AA = ''H'', Residue = 10, Mutation = ''ILE''\<rparr>]"
proof -
  have h: "list_all mut_format [''A20G'', ''B_H10I'']"
    by (simp add: mut_format_def mut_core_def isdigit_def aa1_def)
  have e: "emap spec_mutation [''A20G'', ''B_H10I''] =
       Inr [\<lparr>label = ''A20G'', Chain = [], AA = ''A'', Residue = 20, Mutation = ''GLY''\<rparr>,
            \<lparr>label = ''B_H10I'', Chain = ''B'', AA = ''H'', Residue = 10, Mutation = ''ILE''\<rparr>]"
    by (simp add: spec_mutation_def spec_chain_def spec_original_def spec_position_def
      isdigit_def nat_of_digits_def digit_val_def dict_get_def aa123_def aa1_def
      aa3_def py_split_def isspace_def)
  from parse_mutlist_documented_format[OF h] h e show ?thesis by blast
qed

section \<open>The topology patch is undone\<close>

lemma concat_readlines_aux: "concat (readlines_aux cur s) = cur @ s"
  by (induction s arbitrary: cur) simp_all

lemma concat_readlines: "concat (readlines s) = s"
  by (simp add: readlines_def concat_readlines_aux)

lemma neg_tail_cut:
  "neg_tail k l = drop (if k = 0 then 0 else length l - k) l"
  "set_neg_tail k l new = take (if k = 0 then 0 else length l - k) l @ new"
  by (simp_all add: neg_tail_def set_neg_tail_def)

lemma neg_tail_replaced:
  assumes "length new = length (neg_tail k l)"
  shows "neg_tail k (set_neg_tail k l new) = new"
    and "set_neg_tail k (set_neg_tail k l new) new' = set_neg_tail k l new'"
    and "length (set_neg_tail k l new) = length l"
proof -
  define m where "m = (if k = 0 then 0 else length l - k)"
  have m: "m \<le> length l" by (simp add: m_def)
  have a: "neg_tail k l = drop m l" and b: "\<And>new. set_neg_tail k l new = take m l @ new"
    by (simp_all add: neg_tail_cut m_def)
  from assms a have ln: "length new = length l - m" by simp
  with m have len: "length (take m l @ new) = length l" by simp
  have m': "(if k = 0 then 0 else length (take m l @ new) - k) = m"
    unfolding len by (simp add: m_def)
  show "length (set_neg_tail k l new) = length l" unfolding b by (rule len)
  have "neg_tail k (take m l @ new) = drop m (take m l @ new)"
    using neg_tail_cut(1)[of k "take m l @ new"] unfolding m' .
  also have "\<dots> = new" using m by simp
  finally show "neg_tail k (set_neg_tail k l new) = new" unfolding b .
  have "set_neg_tail k (take m l @ new) new' = take m (take m l @ new) @ new'"
    using neg_tail_cut(2)[of k "take m l @ new" new'] unfolding m' .
  also have "\<dots> = take m l @ new'" using m by simp
  finally show "set_neg_tail k (set_neg_tail k l new) new' = set_neg_tail k l new'"
    unfolding b .
qed

lemma set_neg_tail_same: "set_neg_tail k l (neg_tail k l) = l"
  by (simp add: neg_tail_def set_neg_tail_def)

lemma nth_map_fix:
  assumes "p < length xs" "xs ! p = sel" "f sel = sel"
  shows "(take m xs @ map f (drop m xs)) ! p = sel"
proof (cases "p < m")
  case True
  with assms show ?thesis by (simp add: nth_append)
next
  case False
  with assms show ?thesis by (simp add: nth_append min_def)
qed

lemma py_get_map_fix:
  assumes "py_get l i = Inr sel" "f sel = sel"
  shows "py_get (set_neg_tail k l (map f (neg_tail k l))) i = Inr sel"
proof -
  define m where "m = (if k = 0 then 0 else length l - k)"
  have e: "set_neg_tail k l (map f (neg_tail k l)) = take m l @ map f (drop m l)"
    by (simp add: neg_tail_cut m_def)
  have len: "length (take m l @ map f (drop m l)) = length l" by (simp add: m_def)
  from assms(1) consider (pos) "0 \<le> i" "i < int (length l)" "l ! nat i = sel"
    | (neg) "i < 0" "- i \<le> int (length l)" "l ! nat (int (length l) + i) = sel"
    by (auto simp: py_get_def split: if_splits)
  then show ?thesis
  proof cases
    case pos
    then have "nat i < length l" by simp
    from nth_map_fix[of "nat i" l sel f m, OF this pos(3) assms(2)] pos(1,2) show ?thesis
      unfolding e py_get_def len by simp
  next
    case neg
    then have "nat (int (length l) + i) < length l" by auto
    from nth_map_fix[of "nat (int (length l) + i)" l sel f m, OF this neg(3) assms(2)] neg(1,2) show ?thesis
      unfolding e py_get_def len by simp
  qed
qed

lemma emap_Inl_const: "xs \<noteq> [] \<Longrightarrow> emap (\<lambda>x. Inl e) xs = Inl e"
  by (cases xs) simp_all

lemma neg_tail_Nil: "neg_tail k l = [] \<Longrightarrow> l = []"
proof (cases "k = 0")
  case True
  then show "neg_tail k l = [] \<Longrightarrow> l = []" by (simp add: neg_tail_def)
next
  case False
  assume "neg_tail k l = []"
  with False have "drop (length l - k) l = []" by (simp only: neg_tail_def if_False)
  then have "length l \<le> length l - k" by (simp only: drop_eq_Nil)
  with False have "length l = 0" by arith
  then show "l = []" by simp
qed

lemma comment_others_sel:
  assumes "py_get l (int cn - int k) = Inr sel"
  shows "comment_others cn k l =
    Inr (set_neg_tail k l (map (\<lambda>line. if line \<noteq> sel then CHR '';'' # line else line) (neg_tail k l)))"
  unfolding comment_others_def assms by (simp add: emap_Inr)

lemma revert_others_sel:
  assumes "py_get l (int cn - int k) = Inr sel"
  shows "revert_others cn k l =
    Inr (set_neg_tail k l (map (\<lambda>line. if line \<noteq> sel then drop 1 line else line) (neg_tail k l)))"
  unfolding revert_others_def assms by (simp add: emap_Inr)

lemma comment_others_fail:
  assumes "py_get l (int cn - int k) = Inl e" "l \<noteq> []"
  shows "comment_others cn k l = Inl e"
proof -
  from assms(2) have "neg_tail k l \<noteq> []" using neg_tail_Nil by blast
  then show ?thesis unfolding comment_others_def assms(1) by (simp add: emap_Inl_const)
qed

lemma comment_revert:
  assumes sel: "py_get l (int cn - int k) = Inr sel"
    and prov: "\<forall>t \<in> set (neg_tail k l). CHR '';'' # t \<noteq> sel"
  shows "ebind (comment_others cn k l) (revert_others cn k) = Inr l"
proof -
  let ?c = "\<lambda>line. if line \<noteq> sel then CHR '';'' # line else line"
  let ?r = "\<lambda>line. if line \<noteq> sel then drop 1 line else line"
  let ?l1 = "set_neg_tail k l (map ?c (neg_tail k l))"
  have c: "comment_others cn k l = Inr ?l1" by (rule comment_others_sel[OF sel])
  have sel1: "py_get ?l1 (int cn - int k) = Inr sel"
    by (rule py_get_map_fix[OF sel]) simp
  have len: "length (map ?c (neg_tail k l)) = length (neg_tail k l)" by simp
  have r: "revert_others cn k ?l1 =
      Inr (set_neg_tail k ?l1 (map ?r (neg_tail k ?l1)))"
    by (rule revert_others_sel[OF sel1])
  have tl1: "neg_tail k ?l1 = map ?c (neg_tail k l)"
    by (rule neg_tail_replaced(1)[OF len])
  have undo: "map ?r (map ?c (neg_tail k l)) = neg_tail k l"
    using prov by (induction "neg_tail k l") (auto simp: map_idI)
  have "set_neg_tail k ?l1 (map ?r (neg_tail k ?l1)) = set_neg_tail k l (neg_tail k l)"
    unfolding tl1 undo by (rule neg_tail_replaced(2)[OF len])
  then show ?thesis unfolding c ebind_Inr r by (simp add: set_neg_tail_same)
qed

subsection \<open>Claim C10: comment, then revert\<close>

text \<open>
  C10, as stated, fails. Its proviso excludes a trailing line equal to the selected line
  and a trailing line equal to a semicolon followed by the selected line; the edit breaks
  in the other direction, when the selected line is a semicolon followed by another
  trailing line. Here the last two lines are ``A 1'' and ``;A 1'', the second is selected:
  the first is commented, then equals the selected line and is never uncommented.
\<close>

theorem topol_iteration_proviso_counterexample:
  "topol_iteration True 1 [''A'', ''B''] ''x\<newline>A 1\<newline>;A 1\<newline>'' = Inr ''x\<newline>;A 1\<newline>;A 1\<newline>''
   \<and> neg_tail 2 (readlines ''x\<newline>A 1\<newline>;A 1\<newline>'') = [''A 1\<newline>'', '';A 1\<newline>'']
   \<and> py_get (readlines ''x\<newline>A 1\<newline>;A 1\<newline>'') (1 - 2) = Inr '';A 1\<newline>''
   \<and> ''A 1\<newline>'' \<noteq> '';A 1\<newline>''
   \<and> CHR '';'' # '';A 1\<newline>'' \<notin> set [''A 1\<newline>'', '';A 1\<newline>'']
   \<and> ''x\<newline>;A 1\<newline>;A 1\<newline>'' \<noteq> ''x\<newline>A 1\<newline>;A 1\<newline>''"
  by (simp add: topol_iteration_def comment_others_def revert_others_def readlines_def
      neg_tail_def set_neg_tail_def py_get_def)

text \<open>
  C10, amended: a chain iteration that completes without an exception restores the content
  of the topology file exactly, provided the selected line is not a semicolon followed by
  one of the trailing lines.
\<close>

theorem topol_iteration_roundtrip:
  assumes run: "topol_iteration gmx_ok cn chns topol = Inr topol'"
    and prov: "\<forall>t \<in> set (neg_tail (length chns) (readlines topol)).
                 py_get (readlines topol) (int cn - int (length chns)) \<noteq> Inr (CHR '';'' # t)"
  shows "topol' = topol"
proof (cases "readlines topol = []")
  case True
  have "topol = concat (readlines topol)" by (simp add: concat_readlines)
  then have e: "topol = []" by (simp add: True)
  have c: "comment_others cn (length chns) [] = Inr []"
    by (simp add: comment_others_def neg_tail_def set_neg_tail_def)
  have r: "revert_others cn (length chns) [] = Inr []"
    by (simp add: revert_others_def neg_tail_def set_neg_tail_def)
  from run have "topol' = []"
    unfolding topol_iteration_def True c ebind_Inr r by (simp split: if_splits)
  with e show ?thesis by simp
next
  case False
  let ?l = "readlines topol" and ?k = "length chns"
  show ?thesis
  proof (cases "py_get ?l (int cn - int ?k)")
    case (Inl e)
    from comment_others_fail[OF Inl False] run show ?thesis
      by (simp add: topol_iteration_def)
  next
    case (Inr sel)
    with prov have p: "\<forall>t \<in> set (neg_tail ?k ?l). CHR '';'' # t \<noteq> sel" by auto
    have cr: "ebind (comment_others cn ?k ?l) (revert_others cn ?k) = Inr ?l"
      by (rule comment_revert[OF Inr p])
    then obtain l1 where c: "comment_others cn ?k ?l = Inr l1" and r: "revert_others cn ?k l1 = Inr ?l"
      by (cases "comment_others cn ?k ?l") simp_all
    from run have "topol' = concat ?l"
      by (simp add: topol_iteration_def c r split: if_splits)
    then show ?thesis by (simp add: concat_readlines)
  qed
qed

theorem topol_iteration_roundtrip_witness:
  "topol_iteration True 0 [''A'', ''B''] ''x\<newline>A 1\<newline>B 1\<newline>'' = Inr ''x\<newline>A 1\<newline>B 1\<newline>''
   \<and> neg_tail (length [''A'', ''B'']) (readlines ''x\<newline>A 1\<newline>B 1\<newline>'') = [''A 1\<newline>'', ''B 1\<newline>'']
   \<and> py_get (readlines ''x\<newline>A 1\<newline>B 1\<newline>'') (int 0 - int (length [''A'', ''B''])) = Inr ''A 1\<newline>''"
proof -
  have run: "topol_iteration True 0 [''A'', ''B''] ''x\<newline>A 1\<newline>B 1\<newline>'' = Inr ''x\<newline>A 1\<newline>B 1\<newline>''"
    by (simp add: topol_iteration_def comment_others_def revert_others_def readlines_def
      neg_tail_def set_neg_tail_def py_get_def)
  have tl: "neg_tail (length [''A'', ''B'']) (readlines ''x\<newline>A 1\<newline>B 1\<newline>'') = [''A 1\<newline>'', ''B 1\<newline>'']"
    by (simp add: readlines_def neg_tail_def)
  have sel: "py_get (readlines ''x\<newline>A 1\<newline>B 1\<newline>'') (int 0 - int (length [''A'', ''B''])) = Inr ''A 1\<newline>''"
    by (simp add: readlines_def py_get_def)
  have prov: "\<forall>t \<in> set (neg_tail (length [''A'', ''B'']) (readlines ''x\<newline>A 1\<newline>B 1\<newline>'')).
         py_get (readlines ''x\<newline>A 1\<newline>B 1\<newline>'') (int 0 - int (length [''A'', ''B''])) \<noteq> Inr (CHR '';'' # t)"
    unfolding tl sel by simp
  from topol_iteration_roundtrip[OF run prov] run tl sel show ?thesis by blast
qed

section \<open>Facts about parse\_flags\<close>

lemma py_index_err: "py_index xs x = Inl e \<Longrightarrow> e = ValueError"
  by (induction xs arbitrary: e) (auto simp: ebind_def split: if_splits sum.splits)

lemma py_index_notin: "x \<notin> set xs \<Longrightarrow> py_index xs x = Inl ValueError"
  by (induction xs) (auto simp: ebind_def)

lemma py_index_append: "x \<notin> set xs \<Longrightarrow> py_index (xs @ x # ys) x = Inr (length xs)"
  by (induction xs) (auto simp: ebind_def)

lemma emap_err:
  "\<forall>y \<in> set xs. \<forall>e'. f y = Inl e' \<longrightarrow> e' = e \<Longrightarrow> emap f xs = Inl e' \<Longrightarrow> e' = e"
proof (induction xs arbitrary: e')
  case Nil
  then show ?case by simp
next
  case (Cons a xs)
  show ?case
  proof (cases "f a")
    case (Inl x)
    with Cons.prems(2) have "e' = x" by (simp add: ebind_def)
    with Cons.prems(1) Inl show ?thesis by simp
  next
    case (Inr y)
    with Cons.prems(2) have "emap f xs = Inl e'"
      by (cases "emap f xs") (simp_all add: ebind_def)
    with Cons.IH Cons.prems(1) show ?thesis by simp
  qed
qed

lemma emap_Inr_all: "emap f xs = Inr ys \<Longrightarrow> x \<in> set xs \<Longrightarrow> \<exists>y. f x = Inr y"
  by (induction xs arbitrary: ys) (auto simp: ebind_def split: sum.splits)

lemma emap_fails:
  assumes "\<forall>y \<in> set xs. \<forall>e'. f y = Inl e' \<longrightarrow> e' = e" "x \<in> set xs" "f x = Inl e"
  shows "emap f xs = Inl e"
proof (cases "emap f xs")
  case (Inl e')
  with emap_err[OF assms(1)] show ?thesis by blast
next
  case (Inr ys)
  from emap_Inr_all[OF Inr assms(2)] assms(3) show ?thesis by simp
qed

lemma upto_char_err: "upto_char c s = Inl e \<Longrightarrow> e = ValueError"
  by (cases "py_index s c") (auto simp: upto_char_def ebind_def dest: py_index_err)

lemma uncomment_err: "uncomment ls = Inl e \<Longrightarrow> e = ValueError"
proof (induction ls arbitrary: e)
  case Nil
  then show ?case by simp
next
  case (Cons l ls)
  then show ?case
    by (auto simp: ebind_def split: sum.splits if_splits dest: upto_char_err)
qed

lemma flag_lines_err: "flag_lines f = Inl e \<Longrightarrow> e = ValueError"
proof -
  assume a: "flag_lines f = Inl e"
  show ?thesis
  proof (cases "emap (upto_char CHR ''\<newline>'') (readlines f)")
    case (Inl e')
    with a have "e = e'" by (simp add: flag_lines_def ebind_def)
    moreover from Inl have "e' = ValueError"
      by (rule emap_err[rotated]) (simp add: upto_char_err)
    ultimately show ?thesis by simp
  next
    case (Inr c)
    with a have "uncomment c = Inl e" by (simp add: flag_lines_def ebind_def)
    then show ?thesis by (rule uncomment_err)
  qed
qed

lemma split_on_none: "sep \<notin> set l \<Longrightarrow> split_on sep l = [l]"
  by (induction l) auto

lemma split_kv_line:
  "CHR ''='' \<notin> set (fst kv) \<Longrightarrow> CHR ''='' \<notin> set (snd kv) \<Longrightarrow>
   split_on CHR ''='' (kv_line kv) = [fst kv, snd kv]"
  by (simp add: kv_line_def split_on_no_sep split_on_none)

lemma unpack_kv: "no_eq s \<Longrightarrow> unpack (map (split_on CHR ''='') (map kv_line s)) = kv_tokens s"
  by (induction s) (simp_all add: no_eq_def unpack_def kv_tokens_def split_kv_line)

lemma length_kv_tokens: "length (kv_tokens s) = 2 * length s"
  by (induction s) (simp_all add: kv_tokens_def)

lemma header_not_kv: "h \<in> set headers \<Longrightarrow> h \<notin> set (map kv_line s)"
proof
  assume h: "h \<in> set headers" and "h \<in> set (map kv_line s)"
  then obtain kv where "h = kv_line kv" by auto
  then have "CHR ''='' \<in> set h" by (simp add: kv_line_def)
  with h show False by (auto simp: headers_def)
qed

lemma slice_mid: "py_slice (length A + 1) (length A + 1 + length s) (A @ h # s @ B) = s"
  by (simp add: py_slice_def)

lemma section_mid:
  assumes "idx ! i = length A" "idx ! (i + 1) = length A + 1 + length (map kv_line s)"
    "u = A @ h # map kv_line s @ B" "no_eq s"
  shows "section_of idx u i = kv_tokens s"
proof -
  have "py_slice (idx ! i + 1) (idx ! (i + 1)) u = map kv_line s"
    unfolding assms(1,2,3) by (rule slice_mid)
  then show ?thesis unfolding section_of_def by (simp only: unpack_kv[OF assms(4)])
qed

lemma headers_distinct: "distinct headers"
  by (simp add: headers_def)

subsection \<open>Files given by their lines\<close>

lemma upto_newline: "CHR ''\<newline>'' \<notin> set l \<Longrightarrow> upto_char CHR ''\<newline>'' (l @ ''\<newline>'') = Inr l"
  by (simp add: upto_char_def py_index_append)

lemma upto_newline_fail: "CHR ''\<newline>'' \<notin> set l \<Longrightarrow> upto_char CHR ''\<newline>'' l = Inl ValueError"
  by (simp add: upto_char_def py_index_notin)

lemma flag_lines_unlines:
  assumes "list_all (\<lambda>l. CHR ''\<newline>'' \<notin> set l) ls"
  shows "flag_lines (unlines ls) = uncomment ls"
proof -
  have nl: "\<And>l. l \<in> set ls \<Longrightarrow> CHR ''\<newline>'' \<notin> set l"
    using assms by (simp add: list_all_iff)
  have "emap (upto_char CHR ''\<newline>'') (map (\<lambda>l. l @ ''\<newline>'') ls) = Inr (map (\<lambda>l. l) ls)"
    by (rule emap_map_Inr) (simp add: upto_newline nl)
  then show ?thesis
    by (simp add: flag_lines_def readlines_unlines[OF nl])
qed

lemma readlines_aux_last:
  "CHR ''\<newline>'' \<notin> set l \<Longrightarrow> cur @ l \<noteq> [] \<Longrightarrow> readlines_aux cur l = [cur @ l]"
  by (induction l arbitrary: cur) auto

lemma readlines_unterminated:
  assumes "\<And>l. l \<in> set ls \<Longrightarrow> CHR ''\<newline>'' \<notin> set l" "CHR ''\<newline>'' \<notin> set l" "l \<noteq> []"
  shows "readlines (unlines ls @ l) = map (\<lambda>l. l @ ''\<newline>'') ls @ [l]"
  using assms(1)
proof (induction ls)
  case Nil
  then show ?case by (simp add: readlines_def unlines_def readlines_aux_last[OF assms(2)] assms(3))
next
  case (Cons a ls)
  have "readlines (unlines (a # ls) @ l) = readlines_aux [] (a @ CHR ''\<newline>'' # (unlines ls @ l))"
    by (simp add: readlines_def unlines_def)
  also have "\<dots> = (a @ ''\<newline>'') # readlines (unlines ls @ l)"
    using Cons.prems by (simp add: readlines_aux_line readlines_def)
  finally show ?case using Cons by simp
qed

lemma emap_snoc_fail:
  assumes "\<And>x. x \<in> set xs \<Longrightarrow> \<exists>y. f x = Inr y" "f z = Inl e"
  shows "emap f (xs @ [z]) = Inl e"
  using assms(1)
proof (induction xs)
  case Nil
  then show ?case by (simp add: assms(2))
next
  case (Cons a xs)
  then obtain y where "f a = Inr y" by auto
  moreover have "emap f (xs @ [z]) = Inl e" by (rule Cons.IH) (simp add: Cons.prems)
  ultimately show ?case by simp
qed

lemma parse_flags_unterminated:
  assumes "list_all (\<lambda>l. CHR ''\<newline>'' \<notin> set l) ls" "CHR ''\<newline>'' \<notin> set l" "l \<noteq> []"
  shows "parse_flags (unlines ls @ l) = Inl ValueError"
proof -
  have nl: "\<And>l. l \<in> set ls \<Longrightarrow> CHR ''\<newline>'' \<notin> set l"
    using assms(1) by (simp add: list_all_iff)
  have "emap (upto_char CHR ''\<newline>'') (map (\<lambda>l. l @ ''\<newline>'') ls @ [l]) = Inl ValueError"
    by (rule emap_snoc_fail) (auto simp: upto_newline nl upto_newline_fail[OF assms(2)])
  then show ?thesis
    by (simp add: parse_flags_def flag_lines_def readlines_unterminated[OF nl assms(2,3)])
qed

subsection \<open>A file with the six sections in the order of the literal\<close>

lemma parse_flags_layout:
  assumes fl: "flag_lines f =
      Inr (pre @ ''DIST FLAGS'' # map kv_line s1 @ ''DISCO FLAGS'' # map kv_line s2 @
           ''PDB2GMX FLAGS'' # map kv_line s3 @ ''EDITCONF FLAGS'' # map kv_line s4 @
           ''GROMPP FLAGS'' # map kv_line s5 @ ''MDRUN FLAGS'' # map kv_line s6)"
    and pre: "list_all (\<lambda>l. l \<notin> set headers) pre"
    and ne: "no_eq s1" "no_eq s2" "no_eq s3" "no_eq s4" "no_eq s5" "no_eq s6"
  shows "parse_flags f =
      Inr [(''CC'', [(''DIST FLAGS'', kv_tokens s1), (''DISCO FLAGS'', kv_tokens s2)]),
           (''gmx'', [(''PDB2GMX FLAGS'', kv_tokens s3), (''EDITCONF FLAGS'', kv_tokens s4),
                      (''GROMPP FLAGS'', kv_tokens s5), (''MDRUN FLAGS'', kv_tokens s6)])]"
proof -
  define A1 where "A1 = pre"
  define A2 where "A2 = A1 @ ''DIST FLAGS'' # map kv_line s1"
  define A3 where "A3 = A2 @ ''DISCO FLAGS'' # map kv_line s2"
  define A4 where "A4 = A3 @ ''PDB2GMX FLAGS'' # map kv_line s3"
  define A5 where "A5 = A4 @ ''EDITCONF FLAGS'' # map kv_line s4"
  define A6 where "A6 = A5 @ ''GROMPP FLAGS'' # map kv_line s5"
  define u where "u = A6 @ ''MDRUN FLAGS'' # map kv_line s6"
  note A = A1_def A2_def A3_def A4_def A5_def A6_def
  have fu: "flag_lines f = Inr u" unfolding fl u_def A by simp
  have u1: "u = A1 @ ''DIST FLAGS'' # map kv_line s1 @
      (''DISCO FLAGS'' # map kv_line s2 @ ''PDB2GMX FLAGS'' # map kv_line s3 @
       ''EDITCONF FLAGS'' # map kv_line s4 @ ''GROMPP FLAGS'' # map kv_line s5 @
       ''MDRUN FLAGS'' # map kv_line s6)"
    unfolding u_def A2_def A3_def A4_def A5_def A6_def by simp
  have u2: "u = A2 @ ''DISCO FLAGS'' # map kv_line s2 @
      (''PDB2GMX FLAGS'' # map kv_line s3 @
       ''EDITCONF FLAGS'' # map kv_line s4 @ ''GROMPP FLAGS'' # map kv_line s5 @
       ''MDRUN FLAGS'' # map kv_line s6)"
    unfolding u_def A3_def A4_def A5_def A6_def by simp
  have u3: "u = A3 @ ''PDB2GMX FLAGS'' # map kv_line s3 @
      (''EDITCONF FLAGS'' # map kv_line s4 @ ''GROMPP FLAGS'' # map kv_line s5 @
       ''MDRUN FLAGS'' # map kv_line s6)"
    unfolding u_def A4_def A5_def A6_def by simp
  have u4: "u = A4 @ ''EDITCONF FLAGS'' # map kv_line s4 @
      (''GROMPP FLAGS'' # map kv_line s5 @ ''MDRUN FLAGS'' # map kv_line s6)"
    unfolding u_def A5_def A6_def by simp
  have u5: "u = A5 @ ''GROMPP FLAGS'' # map kv_line s5 @ (''MDRUN FLAGS'' # map kv_line s6)"
    unfolding u_def A6_def by simp
  have u6: "u = A6 @ ''MDRUN FLAGS'' # map kv_line s6 @ []"
    unfolding u_def by simp
  have hp: "\<And>h. h \<in> set headers \<Longrightarrow> h \<notin> set pre"
    using pre by (auto simp: list_all_iff)
  have hk: "\<And>h s. h \<in> set headers \<Longrightarrow> h \<notin> set (map kv_line s)"
    by (rule header_not_kv)
  have in1: "''DIST FLAGS'' \<in> set headers" and in2: "''DISCO FLAGS'' \<in> set headers"
    and in3: "''PDB2GMX FLAGS'' \<in> set headers" and in4: "''EDITCONF FLAGS'' \<in> set headers"
    and in5: "''GROMPP FLAGS'' \<in> set headers" and in6: "''MDRUN FLAGS'' \<in> set headers"
    by (simp_all add: headers_def)
  have n1: "''DIST FLAGS'' \<notin> set A1" unfolding A1_def by (rule hp[OF in1])
  have n2: "''DISCO FLAGS'' \<notin> set A2"
    unfolding A2_def A1_def using hp[OF in2] hk[OF in2, of s1] by simp
  have n3: "''PDB2GMX FLAGS'' \<notin> set A3"
    unfolding A3_def A2_def A1_def using hp[OF in3] hk[OF in3, of s1] hk[OF in3, of s2] by simp
  have n4: "''EDITCONF FLAGS'' \<notin> set A4"
    unfolding A4_def A3_def A2_def A1_def
    using hp[OF in4] hk[OF in4, of s1] hk[OF in4, of s2] hk[OF in4, of s3] by simp
  have n5: "''GROMPP FLAGS'' \<notin> set A5"
    unfolding A5_def A4_def A3_def A2_def A1_def
    using hp[OF in5] hk[OF in5, of s1] hk[OF in5, of s2] hk[OF in5, of s3] hk[OF in5, of s4]
    by simp
  have n6: "''MDRUN FLAGS'' \<notin> set A6"
    unfolding A6_def A5_def A4_def A3_def A2_def A1_def
    using hp[OF in6] hk[OF in6, of s1] hk[OF in6, of s2] hk[OF in6, of s3] hk[OF in6, of s4]
      hk[OF in6, of s5]
    by simp
  have i1: "py_index u ''DIST FLAGS'' = Inr (length A1)"
    by (subst u1) (rule py_index_append[OF n1])
  have i2: "py_index u ''DISCO FLAGS'' = Inr (length A2)"
    by (subst u2) (rule py_index_append[OF n2])
  have i3: "py_index u ''PDB2GMX FLAGS'' = Inr (length A3)"
    by (subst u3) (rule py_index_append[OF n3])
  have i4: "py_index u ''EDITCONF FLAGS'' = Inr (length A4)"
    by (subst u4) (rule py_index_append[OF n4])
  have i5: "py_index u ''GROMPP FLAGS'' = Inr (length A5)"
    by (subst u5) (rule py_index_append[OF n5])
  have i6: "py_index u ''MDRUN FLAGS'' = Inr (length A6)"
    by (subst u6) (rule py_index_append[OF n6])
  define idx where "idx = [length A1, length A2, length A3, length A4, length A5, length A6] @ [length u]"
  have em: "emap (py_index u) headers =
      Inr [length A1, length A2, length A3, length A4, length A5, length A6]"
    by (simp add: headers_def i1 i2 i3 i4 i5 i6 ebind_def)
  have x0: "idx ! 0 = length A1" and x1: "idx ! (0 + 1) = length A1 + 1 + length (map kv_line s1)"
    and y0: "idx ! 1 = length A2" and y1: "idx ! (1 + 1) = length A2 + 1 + length (map kv_line s2)"
    and z0: "idx ! 2 = length A3" and z1: "idx ! (2 + 1) = length A3 + 1 + length (map kv_line s3)"
    and a0: "idx ! 3 = length A4" and a1: "idx ! (3 + 1) = length A4 + 1 + length (map kv_line s4)"
    and b0: "idx ! 4 = length A5" and b1: "idx ! (4 + 1) = length A5 + 1 + length (map kv_line s5)"
    and c0: "idx ! 5 = length A6" and c1: "idx ! (5 + 1) = length A6 + 1 + length (map kv_line s6)"
    by (simp_all add: idx_def u_def A2_def A3_def A4_def A5_def A6_def)
  have t1: "section_of idx u 0 = kv_tokens s1" by (rule section_mid[OF x0 x1 u1 ne(1)])
  have t2: "section_of idx u 1 = kv_tokens s2" by (rule section_mid[OF y0 y1 u2 ne(2)])
  have t3: "section_of idx u 2 = kv_tokens s3" by (rule section_mid[OF z0 z1 u3 ne(3)])
  have t4: "section_of idx u 3 = kv_tokens s4" by (rule section_mid[OF a0 a1 u4 ne(4)])
  have t5: "section_of idx u 4 = kv_tokens s5" by (rule section_mid[OF b0 b1 u5 ne(5)])
  have t6: "section_of idx u 5 = kv_tokens s6" by (rule section_mid[OF c0 c1 u6 ne(6)])
  show ?thesis
    unfolding parse_flags_def fu ebind_Inr em Let_def idx_def[symmetric] t1 t2 t3 t4 t5 t6 ..
qed

subsection \<open>Claim C4: a missing header\<close>

text \<open>
  C4, as stated, fails in the kind of the error: the program has no ConfigurationError;
  the failure is the \<open>ValueError\<close> that \<open>list.index\<close> raises.
\<close>

theorem parse_flags_missing_header_counterexample:
  "parse_flags ''DIST FLAGS\<newline>-c=2\<newline>'' = Inl ValueError"
  by (simp add: parse_flags_def flag_lines_def readlines_def upto_char_def headers_def
      py_split_def isspace_def ebind_def)

text \<open>
  C4, amended: for every flags file in which one of the six expected category headers is
  not among the lines of the file (cut at the semicolon, blanks normalised),
  \<open>parse_flags\<close> fails with \<open>ValueError\<close>; it does not return a mapping with an empty
  list for the category.
\<close>

theorem parse_flags_missing_header:
  assumes "h \<in> set headers" and "\<forall>u. flag_lines f = Inr u \<longrightarrow> h \<notin> set u"
  shows "parse_flags f = Inl ValueError"
proof (cases "flag_lines f")
  case (Inl e)
  then have "e = ValueError" by (rule flag_lines_err)
  with Inl show ?thesis by (simp add: parse_flags_def ebind_def)
next
  case (Inr u)
  with assms(2) have "h \<notin> set u" by simp
  then have "py_index u h = Inl ValueError" by (rule py_index_notin)
  with assms(1) have "emap (py_index u) headers = Inl ValueError"
    by (intro emap_fails[where x = h]) (auto dest: py_index_err)
  with Inr show ?thesis by (simp add: parse_flags_def ebind_def)
qed

theorem parse_flags_missing_header_witness:
  "''DISCO FLAGS'' \<in> set headers
   \<and> flag_lines ''DIST FLAGS\<newline>-n=5 ; size\<newline>'' = Inr [''DIST FLAGS'', ''-n=5'']
   \<and> ''DISCO FLAGS'' \<notin> set [''DIST FLAGS'', ''-n=5'']
   \<and> parse_flags ''DIST FLAGS\<newline>-n=5 ; size\<newline>'' = Inl ValueError"
proof -
  have h: "''DISCO FLAGS'' \<in> set headers" by (simp add: headers_def)
  have fl: "flag_lines ''DIST FLAGS\<newline>-n=5 ; size\<newline>'' = Inr [''DIST FLAGS'', ''-n=5'']"
    by (simp add: flag_lines_def readlines_def upto_char_def py_split_def isspace_def ebind_def)
  have n: "''DISCO FLAGS'' \<notin> set [''DIST FLAGS'', ''-n=5'']" by simp
  have a: "\<forall>u. flag_lines ''DIST FLAGS\<newline>-n=5 ; size\<newline>'' = Inr u \<longrightarrow> ''DISCO FLAGS'' \<notin> set u"
    unfolding fl by simp
  from parse_flags_missing_header[OF h a] h fl n show ?thesis by blast
qed

subsection \<open>Claim C6: two tokens per key=value line\<close>

text \<open>
  C6, as stated, fails for a file whose sections are not in the order of the dictionary
  literal: with the DISCO section before the DIST section, the DIST category gets no
  token although its section has one line, and the DISCO category gets five.
\<close>

theorem parse_flags_order_counterexample:
  "flag_lines swapped_flags =
     Inr [''DISCO FLAGS'', ''-n=5'', ''DIST FLAGS'', ''-a=1'', ''PDB2GMX FLAGS'',
          ''EDITCONF FLAGS'', ''GROMPP FLAGS'', ''MDRUN FLAGS'']
   \<and> parse_flags swapped_flags =
     Inr [(''CC'', [(''DIST FLAGS'', []),
                    (''DISCO FLAGS'', [''-n'', ''5'', ''DIST FLAGS'', ''-a'', ''1''])]),
          (''gmx'', [(''PDB2GMX FLAGS'', []), (''EDITCONF FLAGS'', []),
                     (''GROMPP FLAGS'', []), (''MDRUN FLAGS'', [])])]"
  by (simp add: swapped_flags_def parse_flags_def flag_lines_def readlines_def upto_char_def
      headers_def py_split_def isspace_def ebind_def section_of_def py_slice_def unpack_def)

text \<open>
  C6, amended: take a flags file in which every line ends with a newline, \<open>unlines ls\<close> for
  lines \<open>ls\<close> that hold no newline. If these lines, each cut at its first semicolon and
  the empty ones dropped, are, after any lines that are no headers, the six headers in the
  order DIST, DISCO, PDB2GMX, EDITCONF, GROMPP, MDRUN, each followed by its \<open>m\<close> lines
  \<open>key=value\<close> with one equals sign, then \<open>parse_flags\<close> returns the six categories, and
  the list of each category is made of the key and the value of each of its lines, in
  order: 2 times \<open>m\<close> tokens. The same file followed by a last line that is not empty and
  has no newline at its end makes \<open>parse_flags\<close> raise \<open>ValueError\<close>.
\<close>

theorem parse_flags_sections:
  assumes nl: "list_all (\<lambda>l. CHR ''\<newline>'' \<notin> set l) ls"
    and un: "uncomment ls =
      Inr (pre @ ''DIST FLAGS'' # map kv_line s1 @ ''DISCO FLAGS'' # map kv_line s2 @
           ''PDB2GMX FLAGS'' # map kv_line s3 @ ''EDITCONF FLAGS'' # map kv_line s4 @
           ''GROMPP FLAGS'' # map kv_line s5 @ ''MDRUN FLAGS'' # map kv_line s6)"
    and pre: "list_all (\<lambda>l. l \<notin> set headers) pre"
    and ne: "no_eq s1" "no_eq s2" "no_eq s3" "no_eq s4" "no_eq s5" "no_eq s6"
  shows "parse_flags (unlines ls) =
      Inr [(''CC'', [(''DIST FLAGS'', kv_tokens s1), (''DISCO FLAGS'', kv_tokens s2)]),
           (''gmx'', [(''PDB2GMX FLAGS'', kv_tokens s3), (''EDITCONF FLAGS'', kv_tokens s4),
                      (''GROMPP FLAGS'', kv_tokens s5), (''MDRUN FLAGS'', kv_tokens s6)])]
    \<and> length (kv_tokens s1) = 2 * length s1 \<and> length (kv_tokens s2) = 2 * length s2
    \<and> length (kv_tokens s3) = 2 * length s3 \<and> length (kv_tokens s4) = 2 * length s4
    \<and> length (kv_tokens s5) = 2 * length s5 \<and> length (kv_tokens s6) = 2 * length s6
    \<and> (\<forall>l. l \<noteq> [] \<and> CHR ''\<newline>'' \<notin> set l \<longrightarrow> parse_flags (unlines ls @ l) = Inl ValueError)"
proof -
  have fl: "flag_lines (unlines ls) =
      Inr (pre @ ''DIST FLAGS'' # map kv_line s1 @ ''DISCO FLAGS'' # map kv_line s2 @
           ''PDB2GMX FLAGS'' # map kv_line s3 @ ''EDITCONF FLAGS'' # map kv_line s4 @
           ''GROMPP FLAGS'' # map kv_line s5 @ ''MDRUN FLAGS'' # map kv_line s6)"
    unfolding flag_lines_unlines[OF nl] by (rule un)
  have a: "parse_flags (unlines ls) =
      Inr [(''CC'', [(''DIST FLAGS'', kv_tokens s1), (''DISCO FLAGS'', kv_tokens s2)]),
           (''gmx'', [(''PDB2GMX FLAGS'', kv_tokens s3), (''EDITCONF FLAGS'', kv_tokens s4),
                      (''GROMPP FLAGS'', kv_tokens s5), (''MDRUN FLAGS'', kv_tokens s6)])]"
    by (rule parse_flags_layout[OF fl pre ne])
  have b: "\<forall>l. l \<noteq> [] \<and> CHR ''\<newline>'' \<notin> set l \<longrightarrow> parse_flags (unlines ls @ l) = Inl ValueError"
    using parse_flags_unterminated[OF nl] by blast
  from a b show ?thesis by (simp add: length_kv_tokens)
qed

theorem parse_flags_sections_witness:
  "list_all (\<lambda>l. CHR ''\<newline>'' \<notin> set l) example_lines
   \<and> uncomment example_lines =
      Inr ([] @ ''DIST FLAGS'' # map kv_line [(''-c'', ''2'')] @
           ''DISCO FLAGS'' # map kv_line [(''-n'', ''200''), (''-i'', ''10'')] @
           ''PDB2GMX FLAGS'' # map kv_line [(''-ff'', ''amber'')] @
           ''EDITCONF FLAGS'' # map kv_line [] @
           ''GROMPP FLAGS'' # map kv_line [] @ ''MDRUN FLAGS'' # map kv_line [(''-nt'', ''1'')])
   \<and> list_all (\<lambda>l. l \<notin> set headers) []
   \<and> no_eq [(''-c'', ''2'')] \<and> no_eq [(''-n'', ''200''), (''-i'', ''10'')]
   \<and> no_eq [(''-ff'', ''amber'')] \<and> no_eq [] \<and> no_eq [(''-nt'', ''1'')]
   \<and> parse_flags (unlines example_lines) =
      Inr [(''CC'', [(''DIST FLAGS'', [''-c'', ''2'']),
                     (''DISCO FLAGS'', [''-n'', ''200'', ''-i'', ''10''])]),
           (''gmx'', [(''PDB2GMX FLAGS'', [''-ff'', ''amber'']), (''EDITCONF FLAGS'', []),
                      (''GROMPP FLAGS'', []), (''MDRUN FLAGS'', [''-nt'', ''1''])])]
   \<and> parse_flags (unlines example_lines @ ''-v=1'') = Inl ValueError"
proof -
  have nl: "list_all (\<lambda>l. CHR ''\<newline>'' \<notin> set l) example_lines"
    by (simp add: example_lines_def)
  have un: "uncomment example_lines =
      Inr ([] @ ''DIST FLAGS'' # map kv_line [(''-c'', ''2'')] @
           ''DISCO FLAGS'' # map kv_line [(''-n'', ''200''), (''-i'', ''10'')] @
           ''PDB2GMX FLAGS'' # map kv_line [(''-ff'', ''amber'')] @
           ''EDITCONF FLAGS'' # map kv_line [] @
           ''GROMPP FLAGS'' # map kv_line [] @ ''MDRUN FLAGS'' # map kv_line [(''-nt'', ''1'')])"
    by (simp add: example_lines_def upto_char_def py_split_def isspace_def ebind_def kv_line_def)
  have pre: "list_all (\<lambda>l. l \<notin> set headers) []" by simp
  have ne: "no_eq [(''-c'', ''2'')]" "no_eq [(''-n'', ''200''), (''-i'', ''10'')]"
    "no_eq [(''-ff'', ''amber'')]" "no_eq []" "no_eq [(''-nt'', ''1'')]"
    by (simp_all add: no_eq_def)
  note t = parse_flags_sections[OF nl un pre ne(1) ne(2) ne(3) ne(4) ne(4) ne(5)]
  from t have p: "parse_flags (unlines example_lines) =
      Inr [(''CC'', [(''DIST FLAGS'', [''-c'', ''2'']),
                     (''DISCO FLAGS'', [''-n'', ''200'', ''-i'', ''10''])]),
           (''gmx'', [(''PDB2GMX FLAGS'', [''-ff'', ''amber'']), (''EDITCONF FLAGS'', []),
                      (''GROMPP FLAGS'', []), (''MDRUN FLAGS'', [''-nt'', ''1''])])]"
    by (simp add: kv_tokens_def)
  from t have q: "parse_flags (unlines example_lines @ ''-v=1'') = Inl ValueError"
    by simp
  from nl un pre ne p q show ?thesis by blast
qed

section \<open>Facts about concoord\<close>

lemma iobind_Inr: "m t = (Inr x, t') \<Longrightarrow> iobind m f t = f x t'"
  by (simp add: iobind_def)

lemma iobind_Inl: "m t = (Inl e, t') \<Longrightarrow> iobind m f t = (Inl e, t')"
  by (simp add: iobind_def)

lemma iofor_ok:
  "(\<And>x t. x \<in> set xs \<Longrightarrow> \<exists>t'. f x t = (Inr (), t')) \<Longrightarrow> \<exists>t'. iofor xs f t = (Inr (), t')"
proof (induction xs arbitrary: t)
  case Nil
  then show ?case by (simp add: ret_def)
next
  case (Cons a xs)
  from Cons.prems[of a t] obtain t1 where a: "f a t = (Inr (), t1)" by auto
  from Cons.IH[of t1] Cons.prems obtain t2 where "iofor xs f t1 = (Inr (), t2)" by auto
  with a show ?case by (simp add: iobind_Inr)
qed

lemma py_get_after:
  "py_get (pre @ a # tok # rest) (int (length pre) + 1) = Inr tok"
  by (simp add: py_get_def nth_append nat_add_distrib)

lemma len_gen_token:
  assumes "flags_of g ''CC'' ''DISCO FLAGS'' = Inr (pre @ ''-n'' # tok # rest)"
    and "''-n'' \<notin> set pre" and "py_int tok = Inr (int N)"
  shows "len_gen g = Inr N"
  unfolding len_gen_def assms(1) ebind_Inr py_index_append[OF assms(2)] py_get_after assms(3)
  by simp

lemma digit_char_isdigit: "k < 10 \<Longrightarrow> isdigit (digit_char k)"
  unfolding isdigit_def digit_char_def by (rule nth_mem) simp

lemma str_nat_digits: "list_all isdigit (str_nat n)"
proof (induction n rule: str_nat.induct)
  case (1 n)
  show ?case
  proof (cases "n < 10")
    case True
    then show ?thesis by (subst str_nat.simps) (simp add: digit_char_isdigit)
  next
    case False
    with 1 show ?thesis by (subst str_nat.simps) (simp add: digit_char_isdigit)
  qed
qed

lemma str_nat_no_slash: "CHR ''/'' \<notin> set (str_nat n)"
proof
  assume "CHR ''/'' \<in> set (str_nat n)"
  with str_nat_digits[of n] have "isdigit CHR ''/''" by (simp add: list_all_iff)
  then show False by (simp add: isdigit_def)
qed

lemma split_on_ne: "split_on sep s \<noteq> []"
  by (induction s) (auto split: list.splits)

lemma split_on_append:
  "\<exists>ws. ws \<noteq> [] \<and> split_on sep (xs @ sep # s) = ws @ split_on sep s"
proof (induction xs)
  case Nil
  have "split_on sep ([] @ sep # s) = [[]] @ split_on sep s" by simp
  then show ?case by blast
next
  case (Cons a xs)
  then obtain w ws where e: "split_on sep (xs @ sep # s) = (w # ws) @ split_on sep s"
    by (metis neq_Nil_conv)
  show ?case
  proof (cases "a = sep")
    case True
    with e have "split_on sep ((a # xs) @ sep # s) = ([] # w # ws) @ split_on sep s" by simp
    then show ?thesis by blast
  next
    case False
    with e have "split_on sep ((a # xs) @ sep # s) = ((a # w) # ws) @ split_on sep s" by simp
    then show ?thesis by blast
  qed
qed

lemma last_split_on_append:
  "last (split_on sep (xs @ sep # s)) = last (split_on sep s)"
proof -
  obtain ws where "split_on sep (xs @ sep # s) = ws @ split_on sep s"
    using split_on_append by blast
  then show ?thesis by (simp add: split_on_ne)
qed

lemma basename_numbered: "basename (d @ ''/'' @ str_nat n) = str_nat n"
  by (simp add: basename_def last_split_on_append split_on_none[OF str_nat_no_slash])

lemma nth_concat_block:
  assumes "\<And>x. x \<in> set xs \<Longrightarrow> length (f x) = N" "j < length xs" "n < N"
  shows "concat (map f xs) ! (j * N + n) = f (xs ! j) ! n"
  using assms
proof (induction xs arbitrary: j)
  case Nil
  then show ?case by simp
next
  case (Cons a xs)
  show ?case
  proof (cases j)
    case 0
    with Cons.prems show ?thesis by (simp add: nth_append)
  next
    case (Suc k)
    with Cons.prems have "concat (map f xs) ! (k * N + n) = f (xs ! k) ! n"
      by (intro Cons.IH) auto
    moreover have "length (f a) = N" using Cons.prems(1) by simp
    ultimately show ?thesis using Suc by (simp add: nth_append)
  qed
qed

lemma length_concat_block:
  "(\<And>x. x \<in> set xs \<Longrightarrow> length (f x) = N) \<Longrightarrow> length (concat (map f xs)) = length xs * N"
  by (induction xs) simp_all

lemma move_conformers_ok: "\<exists>t'. move_conformers N t = (Inr (), t')"
  unfolding move_conformers_def
  by (rule iofor_ok) (simp add: iobind_def emit_def Let_def)

lemma move_conformers_not_Inl: "move_conformers N t \<noteq> (Inl e, t')"
  using move_conformers_ok[of N t] by auto

lemma concoord_dir_ok:
  assumes "flags_of g ''CC'' ''DISCO FLAGS'' = Inr kf" "flags_of g ''CC'' ''DIST FLAGS'' = Inr df"
    "len_gen g = Inr N"
  shows "\<exists>t'. concoord_dir g d t = (Inr (), t')"
  unfolding concoord_dir_def Let_def
  by (auto simp: iobind_def emit_def lift_def assms move_conformers_not_Inl
      split: prod.splits sum.splits)

lemma numbered_nth: "n < N \<Longrightarrow> numbered N d ! n = d @ ''/'' @ str_nat (Suc n)"
  by (simp add: numbered_def del: upt_Suc)

lemma length_numbered: "length (numbered N d) = N"
  by (simp add: numbered_def)

subsection \<open>Claim C3: the ensemble expansion\<close>

text \<open>
  C3: let the DISCO flags hold the token \<open>-n\<close> (first at this place) followed by a token
  that \<open>int\<close> reads as \<open>N\<close>. Then \<open>len(self)\<close> is \<open>N\<close>, \<open>concoord\<close> returns, and the
  list of working directories is replaced by \<open>v\<close> times \<open>N\<close> entries, \<open>N\<close> per variant:
  entry \<open>j * N + n\<close> is variant \<open>j\<close> followed by a slash and the number \<open>n + 1\<close>, which is
  its last path component.
\<close>

theorem concoord_expands_wdlist:
  assumes disco: "flags_of g ''CC'' ''DISCO FLAGS'' = Inr (pre @ ''-n'' # tok # rest)"
    and npre: "''-n'' \<notin> set pre"
    and tok: "py_int tok = Inr (int N)"
    and dist: "flags_of g ''CC'' ''DIST FLAGS'' = Inr df"
  shows "len_gen g = Inr N
    \<and> (\<exists>tr'. concoord g tr = (Inr (g\<lparr>wdlist := concat (map (numbered N) (wdlist g))\<rparr>), tr'))
    \<and> length (concat (map (numbered N) (wdlist g))) = length (wdlist g) * N
    \<and> (\<forall>j < length (wdlist g). \<forall>n < N.
          concat (map (numbered N) (wdlist g)) ! (j * N + n) = wdlist g ! j @ ''/'' @ str_nat (Suc n)
        \<and> basename (concat (map (numbered N) (wdlist g)) ! (j * N + n)) = str_nat (Suc n))"
proof -
  have len: "len_gen g = Inr N" by (rule len_gen_token[OF disco npre tok])
  obtain t1 where loop: "iofor (wdlist g) (concoord_dir g) tr = (Inr (), t1)"
    using iofor_ok[of "wdlist g" "concoord_dir g" tr] concoord_dir_ok[OF disco dist len]
    by blast
  have new: "emap (\<lambda>d. ebind (len_gen g)
                          (\<lambda>N. Inr (map (\<lambda>n. d @ ''/'' @ str_nat n) [1..<N + 1])))
                    (wdlist g) = Inr (map (numbered N) (wdlist g))"
    by (rule emap_Inr) (simp add: len numbered_def)
  have run: "concoord g tr = (Inr (g\<lparr>wdlist := concat (map (numbered N) (wdlist g))\<rparr>), t1)"
    unfolding concoord_def new by (simp add: loop lift_def ret_def iobind_def)
  have l: "length (concat (map (numbered N) (wdlist g))) = length (wdlist g) * N"
    by (rule length_concat_block) (rule length_numbered)
  have nth: "\<And>j n. j < length (wdlist g) \<Longrightarrow> n < N \<Longrightarrow>
      concat (map (numbered N) (wdlist g)) ! (j * N + n) = wdlist g ! j @ ''/'' @ str_nat (Suc n)"
    by (simp add: nth_concat_block[where f = "numbered N", OF length_numbered] numbered_nth)
  have bn: "\<And>d n. basename (d @ CHR ''/'' # str_nat n) = str_nat n"
    using basename_numbered by simp
  from len run l nth show ?thesis by (auto simp: bn)
qed

theorem concoord_expands_wdlist_witness:
  "flags_of g5 ''CC'' ''DISCO FLAGS'' = Inr ([] @ ''-n'' # ''5'' # [])
   \<and> ''-n'' \<notin> set ([] :: string list)
   \<and> py_int ''5'' = Inr (int 5)
   \<and> flags_of g5 ''CC'' ''DIST FLAGS'' = Inr []
   \<and> len_gen g5 = Inr 5
   \<and> length (concat (map (numbered 5) (wdlist g5))) = 15
   \<and> concat (map (numbered 5) (wdlist g5)) =
       [''/w/1stn/1'', ''/w/1stn/2'', ''/w/1stn/3'', ''/w/1stn/4'', ''/w/1stn/5'',
        ''/w/A20G/1'', ''/w/A20G/2'', ''/w/A20G/3'', ''/w/A20G/4'', ''/w/A20G/5'',
        ''/w/B_H10I/1'', ''/w/B_H10I/2'', ''/w/B_H10I/3'', ''/w/B_H10I/4'', ''/w/B_H10I/5'']"
proof -
  have a: "flags_of g5 ''CC'' ''DISCO FLAGS'' = Inr ([] @ ''-n'' # ''5'' # [])"
    by (simp add: flags_of_def g5_def dict_get_def)
  have b: "''-n'' \<notin> set ([] :: string list)" by simp
  have c: "py_int ''5'' = Inr (int 5)"
    by (simp add: py_int_def strip_def isspace_def isdigit_def nat_of_digits_def digit_val_def)
  have d: "flags_of g5 ''CC'' ''DIST FLAGS'' = Inr []"
    by (simp add: flags_of_def g5_def dict_get_def)
  have u: "[1..<5 + 1] = [1, 2, 3, 4, 5::nat]" by (simp add: upt_rec)
  have s: "str_nat (Suc 0) = ''1''" "str_nat 2 = ''2''" "str_nat 3 = ''3''" "str_nat 4 = ''4''"
    "str_nat 5 = ''5''"
    by code_simp+
  have e: "concat (map (numbered 5) (wdlist g5)) =
       [''/w/1stn/1'', ''/w/1stn/2'', ''/w/1stn/3'', ''/w/1stn/4'', ''/w/1stn/5'',
        ''/w/A20G/1'', ''/w/A20G/2'', ''/w/A20G/3'', ''/w/A20G/4'', ''/w/A20G/5'',
        ''/w/B_H10I/1'', ''/w/B_H10I/2'', ''/w/B_H10I/3'', ''/w/B_H10I/4'', ''/w/B_H10I/5'']"
    unfolding numbered_def u by (simp add: g5_def s)
  from concoord_expands_wdlist[OF a b c d, of "[]"]
  have "len_gen g5 = Inr 5" and "length (concat (map (numbered 5) (wdlist g5))) = length (wdlist g5) * 5"
    by blast+
  moreover have "length (wdlist g5) * 5 = 15" by (simp add: g5_def)
  ultimately show ?thesis using a b c d e by simp
qed

section \<open>Facts about the stages\<close>

lemma solvation_chains_ok: "\<exists>t'. solvation_chains pbe g t = (Inr (), t')"
  unfolding solvation_chains_def
  by (rule iofor_ok) (simp add: iobind_def emit_def log_to_def Let_def)

lemma solvation_chains_not_Inl: "solvation_chains pbe g t \<noteq> (Inl e, t')"
  using solvation_chains_ok[of pbe g t] by auto

lemma solvation_dir_ok: "\<exists>t'. solvation_dir pbe g d t = (Inr (), t')"
  unfolding solvation_dir_def Let_def
  by (auto simp: iobind_def emit_def log_to_def ret_def solvation_chains_not_Inl
      split: prod.splits sum.splits)

lemma solvation_energy_returns: "\<exists>t'. solvation_energy pbe g t = (Inr (), t')"
  unfolding solvation_energy_def by (rule iofor_ok) (rule solvation_dir_ok)

lemma iofor_events:
  "(\<And>x t. x \<in> set xs \<Longrightarrow> f x t = (Inr (), t @ ev x)) \<Longrightarrow>
   iofor xs f t = (Inr (), t @ concat (map ev xs))"
proof (induction xs arbitrary: t)
  case Nil
  then show ?case by (simp add: ret_def)
next
  case (Cons a xs)
  have a: "f a t = (Inr (), t @ ev a)" by (rule Cons.prems) simp
  have "iofor xs f (t @ ev a) = (Inr (), (t @ ev a) @ concat (map ev xs))"
    by (rule Cons.IH) (simp add: Cons.prems)
  with a show ?case by (simp add: iobind_def)
qed

lemma solvation_chains_events:
  "solvation_chains pbe g t =
     (Inr (), t @ concat (map (solvation_chain_events pbe g) [0..<length (chain_ids g)]))"
  unfolding solvation_chains_def
  by (rule iofor_events)
    (simp add: iobind_def emit_def log_to_def Let_def solvation_chain_events_def)

lemma solvation_dir_events:
  "solvation_dir pbe g d t = (Inr (), t @ solvation_events pbe g d)"
  unfolding solvation_dir_def Let_def solvation_events_def
  by (simp add: iobind_def emit_def log_to_def ret_def solvation_chains_events)

lemma solvation_energy_events:
  "solvation_energy pbe g t =
     (Inr (), t @ concat (map (solvation_events pbe g) (wdlist g)))"
  unfolding solvation_energy_def by (rule iofor_events) (rule solvation_dir_events)

subsection \<open>Claim C5: the assertion on the minimized flag\<close>

text \<open>
  C5, as stated, fails for \<open>solvation_energy\<close>: its assertion is commented out, and with
  \<open>minimized\<close> equal to False it changes directory, writes the parameter file and runs
  the solver.
\<close>

theorem solvation_energy_unguarded_counterexample:
  "minimized (g5\<lparr>wdlist := [''/w/1stn/1'']\<rparr>) = False
   \<and> solvation_energy ''eps=80\<newline>'' (g5\<lparr>wdlist := [''/w/1stn/1'']\<rparr>) [] =
       (Inr (),
        [Chdir ''/w/1stn/1'',
         WriteFile ''gropbe.txt'' [''in(tpr,/w/1stn/1/sp.tpr\<newline>)'', ''eps=80\<newline>''],
         Run [''gropbe'', ''gropbe.txt''] ''0'', AppendLog ''solvation.log'', Chdir ''/w''])"
  by (simp add: g5_def solvation_energy_def solvation_dir_def iobind_def emit_def log_to_def
      ret_def readlines_def Let_def str_nat.simps digit_char_def)

text \<open>
  C5, amended: \<open>coulomb_lj\<close>, \<open>area\<close> and \<open>schlitter\<close> assert the flag: invoked with
  \<open>minimized\<close> equal to False each fails with an assertion error before doing any work
  (the events are the ones before the call). \<open>solvation_energy\<close> has no such check:
  when the file system and the solver do their part, it returns, and for every working
  directory, in the order of the list, it has changed into the directory, written the
  parameter file, run the solver and appended to the log (in affinity mode the same per
  chain), and changed back to the main directory; the events are exactly these.
\<close>

theorem stages_assert_minimized:
  assumes "\<not> minimized g"
  shows "coulomb_lj topol_of g t = (Inl AssertionError, t)
       \<and> area g t = (Inl AssertionError, t)
       \<and> schlitter g t = (Inl AssertionError, t)
       \<and> solvation_energy pbe g t =
           (Inr (), t @ concat (map (solvation_events pbe g) (wdlist g)))
       \<and> (\<forall>d \<in> set (wdlist g).
             Run [''gropbe'', ''gropbe.txt''] (join '','' (map str_nat [0..<length (chain_ids g)]))
               \<in> set (solvation_events pbe g d))"
  using assms solvation_energy_events[of pbe g t]
  by (simp add: coulomb_lj_def area_def schlitter_def assert_minimized_def lift_def iobind_def
      solvation_events_def)

theorem stages_assert_minimized_witness:
  "\<not> minimized g5
   \<and> coulomb_lj (\<lambda>d. []) g5 [] = (Inl AssertionError, [])
   \<and> area g5 [] = (Inl AssertionError, [])
   \<and> schlitter g5 [] = (Inl AssertionError, [])
   \<and> solvation_energy ''eps=80\<newline>'' g5 [] =
       (Inr (), [] @ concat (map (solvation_events ''eps=80\<newline>'' g5) (wdlist g5)))
   \<and> length (concat (map (solvation_events ''eps=80\<newline>'' g5) (wdlist g5))) = 15"
proof -
  have h: "\<not> minimized g5" by (simp add: g5_def)
  have l: "length (concat (map (solvation_events ''eps=80\<newline>'' g5) (wdlist g5))) = 15"
    by (simp add: g5_def solvation_events_def)
  from stages_assert_minimized[OF h, of "\<lambda>d. []" "[]" "''eps=80\<newline>''"] h l
  show ?thesis by blast
qed

section \<open>Facts about the tables of a DataCollector\<close>

lemma ebind_Inr_iff: "ebind m f = Inr y \<longleftrightarrow> (\<exists>x. m = Inr x \<and> f x = Inr y)"
  by (cases m) (simp_all add: ebind_def)

lemma set_cell_Inr_iff:
  "set_cell dd col i v = Inr dd' \<longleftrightarrow>
     col \<in> set (columns dd) \<and> dd' = (if i \<in> set (index dd) then upd dd col i v else dd)"
  by (auto simp: set_cell_def upd_def)

lemma get_cell_Inr_iff:
  "get_cell df col i = Inr v \<longleftrightarrow> col \<in> set (columns df) \<and> i \<in> set (index df) \<and> v = cell df col i"
  by (auto simp: get_cell_def)

lemma get_pos0_Inr_iff:
  "get_pos df col 0 = Inr v \<longleftrightarrow> col \<in> set (columns df) \<and> index df \<noteq> [] \<and> v = cell df col (index df ! 0)"
  by (auto simp: get_pos_def)

lemma ddterm_Inr_iff:
  "i \<in> set (index dd) \<Longrightarrow> ddterm g x col coef i am aw dd = Inr dd' \<longleftrightarrow>
     term_ok g x col i am aw \<and> col \<in> set (columns dd) \<and>
     dd' = upd dd col i (term_value g x col coef i am aw)"
  unfolding ddterm_def ebind_Inr_iff get_cell_Inr_iff get_pos0_Inr_iff set_cell_Inr_iff
    term_ok_def term_value_def
  by auto

lemma upd_index [simp]: "index (upd dd col i v) = index dd"
  and upd_columns [simp]: "columns (upd dd col i v) = columns dd"
  by (simp_all add: upd_def)

lemma upd_cell: "cell (upd dd col i v) c k = (if c = col \<and> k = i then v else cell dd c k)"
  by (simp add: upd_def)

lemma py_get_last_part: "py_get (split_on CHR ''_'' i) (- 1) = Inr (last (split_on CHR ''_'' i))"
  by (rule py_get_last) (rule split_on_ne)

lemma py_get_last_iff: "py_get xs (- 1) = Inr c \<longleftrightarrow> xs \<noteq> [] \<and> c = last xs"
proof (cases "xs = []")
  case True
  then show ?thesis by (simp add: py_get_def)
next
  case False
  then show ?thesis using py_get_last[OF False] by auto
qed

lemma py_get_0_iff: "py_get xs 0 = Inr c \<longleftrightarrow> xs \<noteq> [] \<and> c = hd xs"
  by (cases xs) (auto simp: py_get_def)

lemma ddterm_outside:
  "i \<notin> set (index dd) \<Longrightarrow> ddterm g x col coef i am aw dd = Inr dd' \<Longrightarrow> dd' = dd"
  by (auto simp: ddterm_def ebind_Inr_iff set_cell_Inr_iff)

lemma row_outside:
  assumes "i \<notin> set (index dd)"
  shows "ddstability_row g x alpha beta gamma tau i dd \<noteq> Inr dd'"
proof
  assume "ddstability_row g x alpha beta gamma tau i dd = Inr dd'"
  then obtain am aw d1 d2 d3 d4 d5 v where
    1: "ddterm g x ''SOLV'' alpha i am aw dd = Inr d1"
    and 2: "ddterm g x ''COUL'' alpha i am aw d1 = Inr d2"
    and 3: "ddterm g x ''LJ'' beta i am aw d2 = Inr d3"
    and 4: "ddterm g x ''SAS'' gamma i am aw d3 = Inr d4"
    and 5: "ddterm g x ''-TS'' tau i am aw d4 = Inr d5"
    and 6: "get_cell d5 ''SOLV'' i = Inr v"
    unfolding ddstability_row_def Let_def ebind_Inr_iff by blast
  have "d1 = dd" by (rule ddterm_outside[OF assms 1])
  with 2 assms have "d2 = dd" using ddterm_outside by blast
  with 3 assms have "d3 = dd" using ddterm_outside by blast
  with 4 assms have "d4 = dd" using ddterm_outside by blast
  with 5 assms have "d5 = dd" using ddterm_outside by blast
  with 6 assms show False by (simp add: get_cell_Inr_iff)
qed

lemma row_Inr_iff:
  "ddstability_row g x alpha beta gamma tau i dd = Inr dd' \<longleftrightarrow>
     row_ok g x i dd \<and> dd' = row_write g x alpha beta gamma tau i dd"
proof (cases "i \<in> set (index dd)")
  case True
  then show ?thesis
    unfolding ddstability_row_def py_get_last_part ebind_Inr Let_def
    by (simp add: ebind_Inr_iff py_get_last_iff py_get_0_iff ddterm_Inr_iff get_cell_Inr_iff
          set_cell_Inr_iff row_ok_def row_write_def term_columns_def upd_cell Let_def)
       (auto simp: upd_cell Let_def)
next
  case False
  then show ?thesis using row_outside[OF False] by (simp add: row_ok_def Let_def)
qed

lemma upd_keeps:
  assumes "d' = dd\<lparr>cell := cell d'\<rparr>"
  shows "upd d' col i v = dd\<lparr>cell := cell (upd d' col i v)\<rparr>"
proof -
  let ?X = "cell (upd d' col i v)"
  have "upd d' col i v = d'\<lparr>cell := ?X\<rparr>" by (simp add: upd_def)
  also from assms have "d'\<lparr>cell := ?X\<rparr> = (dd\<lparr>cell := cell d'\<rparr>)\<lparr>cell := ?X\<rparr>"
    by (rule arg_cong[where f = "\<lambda>r. r\<lparr>cell := ?X\<rparr>"])
  also have "\<dots> = dd\<lparr>cell := ?X\<rparr>" by simp
  finally show ?thesis .
qed

lemma row_write_keeps:
  "row_write g x a b ga t i dd = dd\<lparr>cell := cell (row_write g x a b ga t i dd)\<rparr>"
proof -
  have 0: "dd = dd\<lparr>cell := cell dd\<rparr>" by simp
  show ?thesis
    unfolding row_write_def Let_def
    by (rule upd_keeps, rule upd_keeps, rule upd_keeps, rule upd_keeps, rule upd_keeps,
        rule upd_keeps, rule 0)
qed

lemma row_write_cell_other:
  assumes "k \<noteq> i \<or> \<not> is_written c"
  shows "cell (row_write g x a b ga t i dd) c k = cell dd c k"
proof -
  from assms have "k \<noteq> i \<or> (c \<noteq> ''CALC'' \<and> c \<noteq> ''SOLV'' \<and> c \<noteq> ''COUL'' \<and> c \<noteq> ''LJ''
      \<and> c \<noteq> ''SAS'' \<and> c \<noteq> ''-TS'')"
    unfolding is_written_def by blast
  then show ?thesis
  proof
    assume "k \<noteq> i"
    then show ?thesis unfolding row_write_def Let_def by (simp add: upd_cell)
  next
    assume "c \<noteq> ''CALC'' \<and> c \<noteq> ''SOLV'' \<and> c \<noteq> ''COUL'' \<and> c \<noteq> ''LJ''
      \<and> c \<noteq> ''SAS'' \<and> c \<noteq> ''-TS''"
    then show ?thesis unfolding row_write_def Let_def by (simp add: upd_cell)
  qed
qed

lemma row_write_cell_same:
  assumes "is_written c"
  shows "cell (row_write g x a b ga t i dd) c i = cell (row_write g x a b ga t i dd2) c i"
  using assms unfolding is_written_def
proof (elim disjE)
  assume "c = ''CALC''" then show ?thesis by (simp add: row_write_def Let_def upd_cell)
next
  assume "c = ''SOLV''" then show ?thesis by (simp add: row_write_def Let_def upd_cell)
next
  assume "c = ''COUL''" then show ?thesis by (simp add: row_write_def Let_def upd_cell)
next
  assume "c = ''LJ''" then show ?thesis by (simp add: row_write_def Let_def upd_cell)
next
  assume "c = ''SAS''" then show ?thesis by (simp add: row_write_def Let_def upd_cell)
next
  assume "c = ''-TS''" then show ?thesis by (simp add: row_write_def Let_def upd_cell)
qed

lemma frame_eqI:
  assumes "d1 = dd\<lparr>cell := cell d1\<rparr>" "d2 = dd\<lparr>cell := cell d2\<rparr>"
    "\<And>c k. cell d1 c k = cell d2 c k"
  shows "d1 = d2"
proof -
  have e: "cell d1 = cell d2" using assms(3) by (simp add: fun_eq_iff)
  note assms(1)
  also have "dd\<lparr>cell := cell d1\<rparr> = dd\<lparr>cell := cell d2\<rparr>" by (simp only: e)
  also note assms(2)[symmetric]
  finally show ?thesis .
qed

lemma overwrite_cell:
  "cell (overwrite v ks dd) c k = (if k \<in> set ks \<and> is_written c then v c k else cell dd c k)"
  by (simp add: overwrite_def)

lemma overwrite_index [simp]: "index (overwrite v ks dd) = index dd"
  and overwrite_columns [simp]: "columns (overwrite v ks dd) = columns dd"
  by (simp_all add: overwrite_def)

lemma overwrite_keeps: "overwrite v ks dd = dd\<lparr>cell := cell (overwrite v ks dd)\<rparr>"
  by (simp add: overwrite_def)

lemma overwrite_keeps2:
  "overwrite v ks (overwrite v' ks' dd) = dd\<lparr>cell := cell (overwrite v ks (overwrite v' ks' dd))\<rparr>"
  by (simp add: overwrite_def)

lemma row_write_overwrite:
  "row_write g x a b ga t i dd = overwrite (row_cell g x a b ga t) [i] dd"
proof (rule frame_eqI[OF row_write_keeps overwrite_keeps])
  fix c k
  show "cell (row_write g x a b ga t i dd) c k = cell (overwrite (row_cell g x a b ga t) [i] dd) c k"
  proof (cases "k = i \<and> is_written c")
    case True
    then show ?thesis
      using row_write_cell_same[of c g x a b ga t i dd "zeros [] []"]
      by (simp add: overwrite_cell row_cell_def)
  next
    case False
    then have "k \<noteq> i \<or> \<not> is_written c" by blast
    from row_write_cell_other[OF this] False show ?thesis
      by (auto simp: overwrite_cell)
  qed
qed

lemma overwrite_overwrite:
  "overwrite v ks (overwrite v [i] dd) = overwrite v (i # ks) dd"
  by (rule frame_eqI[OF overwrite_keeps2 overwrite_keeps]) (simp add: overwrite_cell)

lemma overwrite_Nil: "overwrite v [] dd = dd"
  by (simp add: overwrite_def)

lemma overwrite_idem: "overwrite v ks (overwrite v ks dd) = overwrite v ks dd"
  by (rule frame_eqI[OF overwrite_keeps2 overwrite_keeps]) (simp add: overwrite_cell)

lemma row_ok_cong:
  "index dd2 = index dd \<Longrightarrow> columns dd2 = columns dd \<Longrightarrow> row_ok g x i dd2 = row_ok g x i dd"
  by (simp add: row_ok_def)

lemma efold_rows_iff:
  "efold (ddstability_row g x a b ga t) ks dd = Inr dd' \<longleftrightarrow>
     list_all (\<lambda>i. row_ok g x i dd) ks \<and> dd' = overwrite (row_cell g x a b ga t) ks dd"
proof (induction ks arbitrary: dd)
  case Nil
  then show ?case by (auto simp: overwrite_Nil)
next
  case (Cons i ks)
  have c: "\<And>j. row_ok g x j (overwrite (row_cell g x a b ga t) [i] dd) = row_ok g x j dd"
    by (rule row_ok_cong) simp_all
  show ?case
    by (simp add: ebind_Inr_iff row_Inr_iff Cons.IH row_write_overwrite c overwrite_overwrite)
qed

lemma ddstability_Inr_iff:
  "ddstability x a b ga t c = Inr (c', out) \<longleftrightarrow>
     (\<exists>dd. ddG c = Some dd \<and> list_all (\<lambda>i. row_ok (G c) x i dd) (index dd)
        \<and> out = overwrite (row_cell (G c) x a b ga t) (index dd) dd
        \<and> c' = c\<lparr>ddG := Some out\<rparr>)"
  by (cases "ddG c") (auto simp: ddstability_def ebind_Inr_iff efold_rows_iff)

lemma fmul_Fin [simp]: "fmul (Fin a) (Fin b) = Fin (a * b)"
  by (simp add: fmul_def)

lemma fsub_Fin [simp]: "fsub (Fin a) (Fin b) = Fin (a - b)"
  by (simp add: fsub_def)

lemma fover_Fin [simp]: "fover (Fin a) r = Fin (a / r)"
  by (simp add: fover_def)

lemma init5: "collector_init g5 [''GLY'', ''ILE''] = Inr coll5"
  by (simp add: collector_init_def g5_def coll5_def len_gen_def flags_of_def dict_get_def ebind_def
     py_get_def py_int_def strip_def isspace_def isdigit_def nat_of_digits_def digit_val_def
     aa321_def aa3_def aa1_def py_split_def repr_def basename_def unpack_def term_columns_def Let_def)

lemma column_set_Nil: "column_set col [] w g = g"
  by (simp add: column_set_def)

lemma column_set_index [simp]: "index (column_set col ks w g) = index g"
  and column_set_columns [simp]: "columns (column_set col ks w g) = columns g"
  by (simp_all add: column_set_def)

lemma column_set_cell:
  "cell (column_set col ks w g) c k = (if c = col \<and> k \<in> set ks then w k else cell g c k)"
  by (simp add: column_set_def)

lemma column_set_upd: "column_set col ks w (upd g col d (w d)) = column_set col (d # ks) w g"
  by (rule frame.equality) (auto simp: column_set_def upd_def fun_eq_iff)

lemma efold_set_column:
  assumes "col \<in> set (columns g)"
    and "\<And>d. d \<in> set ks \<Longrightarrow> d \<in> set (index g) \<and> val d = Inr (w d)"
  shows "efold (\<lambda>d g. ebind (val d) (\<lambda>v. set_cell g col d (h v))) ks g =
           Inr (column_set col ks (\<lambda>d. h (w d)) g)"
  using assms
proof (induction ks arbitrary: g)
  case Nil
  then show ?case by (simp add: column_set_Nil)
next
  case (Cons d ks)
  have s: "set_cell g col d (h (w d)) = Inr (upd g col d (h (w d)))"
    using Cons.prems by (simp add: set_cell_Inr_iff)
  have r: "efold (\<lambda>d g. ebind (val d) (\<lambda>v. set_cell g col d (h v))) ks (upd g col d (h (w d))) =
      Inr (column_set col ks (\<lambda>d. h (w d)) (upd g col d (h (w d))))"
    by (rule Cons.IH) (use Cons.prems in simp_all)
  show ?case
    using Cons.prems(2)[of d] by (simp add: s r column_set_upd[of col ks "\<lambda>d. h (w d)"])
qed

lemma split_unlines:
  "list_all (\<lambda>l. CHR ''\<newline>'' \<notin> set l) ls \<Longrightarrow> split_on CHR ''\<newline>'' (unlines ls) = ls @ [[]]"
  by (induction ls) (simp_all add: unlines_def split_on_no_sep)

lemma fsum_Fin_aux: "foldl fadd (Fin a) (map Fin rs) = Fin (a + sum_list rs)"
  by (induction rs arbitrary: a) (simp_all add: add.assoc)

lemma mean_Fin:
  "mean (map Fin rs) = (if rs = [] then NaN else Fin (sum_list rs / of_nat (length rs)))"
  by (simp add: mean_def fsum_def fsum_Fin_aux fover_def)

lemma lj_values_lines:
  assumes "list_all (lj_line_ok r) ls"
  shows "lj_values (unlines ls) = Inr (map (\<lambda>l. Fin (r l)) ls)"
proof -
  have nl: "list_all (\<lambda>l. CHR ''\<newline>'' \<notin> set l) ls"
    using assms by (simp add: list_all_iff lj_line_ok_def)
  have f: "filter (\<lambda>i. 0 < length i) (ls @ [[]]) = ls"
    using assms by (induction ls) (simp_all add: lj_line_ok_def)
  show ?thesis
    unfolding lj_values_def split_unlines[OF nl] f
    by (rule emap_Inr) (use assms in \<open>simp add: list_all_iff lj_line_ok_def\<close>)
qed

lemmas float_eval = py_float_def py_split_def py_get_def strip_def
  isspace_def unsigned_def lower_def mantissa_def digits_value_def digits_count_def
  isdigit_def nat_of_digits_def digit_val_def ebind_def Let_def

subsection \<open>Claim C8: computing the table twice\<close>

text \<open>
  C8: when a call of \<open>ddstability\<close> returns, with the table it wrote, a second call with
  the same tripeptide table and the same coefficients on the collector left by the first
  returns the same collector and writes the same table; the energy table is not changed.
  The result of a call is a function of the collector, the tripeptide table and the
  coefficients. The labels of the tables are distinct.
\<close>

theorem ddstability_idempotent:
  assumes "ddstability x a b ga t c = Inr (c1, out)"
    and "distinct (index (G c))" "distinct (index x)" "distinct (index out)"
  shows "ddstability x a b ga t c1 = Inr (c1, out) \<and> ddG c1 = Some out \<and> G c1 = G c"
proof -
  from assms(1) obtain dd where dd: "ddG c = Some dd"
    and ok: "list_all (\<lambda>i. row_ok (G c) x i dd) (index dd)"
    and out: "out = overwrite (row_cell (G c) x a b ga t) (index dd) dd"
    and c1: "c1 = c\<lparr>ddG := Some out\<rparr>"
    unfolding ddstability_Inr_iff by blast
  have g: "G c1 = G c" and d1: "ddG c1 = Some out" by (simp_all add: c1)
  have io: "index out = index dd" by (simp add: out)
  have ok1: "list_all (\<lambda>i. row_ok (G c1) x i out) (index out)"
    unfolding g io using ok row_ok_cong[of out dd] by (simp add: out)
  have o: "out = overwrite (row_cell (G c1) x a b ga t) (index out) out"
    unfolding g io by (simp add: out overwrite_idem)
  have "c1 = c1\<lparr>ddG := Some out\<rparr>" by (simp add: c1)
  with d1 ok1 o have "ddstability x a b ga t c1 = Inr (c1, out)"
    unfolding ddstability_Inr_iff by blast
  with d1 g show ?thesis by simp
qed

theorem ddstability_idempotent_witness:
  "collector_init g5 [''GLY'', ''ILE''] = Inr coll5
   \<and> ddstability gxg_ex (Fin 1) (Fin 1) (Fin 1) (Fin 1) coll5 = Inr (coll5\<lparr>ddG := Some ddG5\<rparr>, ddG5)
   \<and> distinct (index (G coll5)) \<and> distinct (index gxg_ex) \<and> distinct (index ddG5)
   \<and> ddstability gxg_ex (Fin 1) (Fin 1) (Fin 1) (Fin 1) (coll5\<lparr>ddG := Some ddG5\<rparr>)
       = Inr (coll5\<lparr>ddG := Some ddG5\<rparr>, ddG5)
   \<and> cell ddG5 ''SOLV'' ''A20G'' = Fin 2 \<and> cell ddG5 ''CALC'' ''A20G'' = Fin 10
   \<and> cell ddG5 ''CALC'' ''B_H10I'' = Fin 0"
proof -
  have d: "ddG coll5 = Some (zeros (''CALC'' # term_columns) [''A20G'', ''B_H10I''])"
    by (simp add: coll5_def)
  have ok: "list_all (\<lambda>i. row_ok (G coll5) gxg_ex i (zeros (''CALC'' # term_columns) [''A20G'', ''B_H10I'']))
      (index (zeros (''CALC'' # term_columns) [''A20G'', ''B_H10I'']))"
    by (simp add: zeros_def row_ok_def term_ok_def coll5_def gxg_ex_def term_columns_def
        motif_def aa1_def)
  have h: "ddstability gxg_ex (Fin 1) (Fin 1) (Fin 1) (Fin 1) coll5 = Inr (coll5\<lparr>ddG := Some ddG5\<rparr>, ddG5)"
    unfolding ddstability_Inr_iff using d ok by (simp add: ddG5_def zeros_def)
  have l: "distinct (index (G coll5))" "distinct (index gxg_ex)" "distinct (index ddG5)"
    by (simp_all add: coll5_def gxg_ex_def ddG5_def zeros_def motif_def aa1_def)
  have v: "cell ddG5 ''SOLV'' ''A20G'' = Fin 2" "cell ddG5 ''CALC'' ''A20G'' = Fin 10"
    "cell ddG5 ''CALC'' ''B_H10I'' = Fin 0"
    by (simp_all add: ddG5_def overwrite_cell is_written_def row_cell_def row_write_def
        term_value_def upd_cell coll5_def gxg_ex_def zeros_def motif_def Let_def)
  from ddstability_idempotent[OF h l] h l v init5 show ?thesis by simp
qed

subsection \<open>Claim C1: the tripeptide terms\<close>

text \<open>
  C1: for the mutation \<open>A20G\<close> (alanine replaced by glycine), a tripeptide table with
  \<open>SOLV\<close> 1 for \<open>GAG\<close> and 3 for \<open>GGG\<close>, an energy table of zeros and coefficients 1,
  \<open>ddstability\<close> writes 2 into the \<open>SOLV\<close> cell of the row: it subtracts the value of
  the motif of the original residue and adds the one of the new residue. The term in the
  words of the claim subtracts the value of the new residue and adds the one of the
  original residue, which is -2. The variables of the method are named for the claim's
  reading (\<open>aa_mut\<close> is subtracted and \<open>aa_wt\<close> is added), and hold the letters the other
  way round.
\<close>

theorem ddstability_motif_letters:
  "table_cell (ddstability gxg_ex (Fin 1) (Fin 1) (Fin 1) (Fin 1) coll5) ''SOLV'' ''A20G'' = Inr (Fin 2)
   \<and> spec_term (G coll5) gxg_ex ''SOLV'' (Fin 1) ''A20G'' = Fin (- 2)"
  by (simp add: table_cell_def ddstability_def coll5_def ddstability_row_def ddterm_def gxg_ex_def
      zeros_def term_columns_def get_cell_def get_pos_def set_cell_def motif_def aa1_def py_get_def
      ebind_def spec_term_def)

subsection \<open>Claim C9: the entropy term\<close>



subsection \<open>Claim C7: the mean of the Lennard-Jones values\<close>

text \<open>
  C7, as stated, fails in affinity mode: there the values read from \<open>lj.log\<close> are
  replaced by the ones of the chain logs. With three conformer values of mean -119.9 and
  one chain value -50 the \<open>LJ\<close> cell of the row is -50, and the sum of the chain values
  has been subtracted from every cell of the table, once per row.
\<close>

theorem search_lj_affinity_counterexample:
  "c_mode coll_aff = ''affinity''
   \<and> lj_values (lj_ex ''A20G'') = Inr [Fin (- 120), Fin (- 118.5), Fin (- 121.2)]
   \<and> mean [Fin (- 120), Fin (- 118.5), Fin (- 121.2)] = Fin (- 119.9)
   \<and> chain_values (chain_ex ''A20G'') = Inr [Fin (- 50)]
   \<and> G_cell (search_lj lj_ex chain_ex coll_aff) ''LJ'' ''A20G'' = Inr (Fin (- 50))
   \<and> G_cell (search_lj lj_ex chain_ex coll_aff) ''SOLV'' ''A20G'' = Inr (Fin 100)"
proof -
  have l: "\<And>d. lj_values (lj_ex d) = Inr [Fin (- 120), Fin (- 118.5), Fin (- 121.2)]"
    by (simp add: lj_values_def lj_ex_def float_eval)
  have c: "\<And>d. chain_values (chain_ex d) = Inr [Fin (- 50)]"
    by (simp add: chain_values_def chain_ex_def contains_def float_eval)
  have m: "mean [Fin (- 120), Fin (- 118.5), Fin (- 121.2)] = Fin (- 119.9)"
    by (simp add: mean_def fsum_def fover_def)
  have m2: "mean [Fin (- 50)] = Fin (- 50)" "fsum [Fin (- 50)] = Fin (- 50)"
    by (simp_all add: mean_def fsum_def fover_def)
  have r: "G_cell (search_lj lj_ex chain_ex coll_aff) ''LJ'' ''A20G'' = Inr (Fin (- 50))"
    by (simp add: G_cell_def search_lj_def lj_row_def coll_aff_def l c m2 zeros_def sub_all_def
        set_cell_def get_cell_def)
  have s: "G_cell (search_lj lj_ex chain_ex coll_aff) ''SOLV'' ''A20G'' = Inr (Fin 100)"
    by (simp add: G_cell_def search_lj_def lj_row_def coll_aff_def l c m2 zeros_def sub_all_def
        set_cell_def get_cell_def)
  have "c_mode coll_aff = ''affinity''" by (simp add: coll_aff_def)
  with l c m r s show ?thesis by blast
qed

text \<open>
  C7, amended: in stability mode, when the output of \<open>tail\<close> for every row consists of
  lines that end with a newline and whose second word is a finite number, \<open>search_lj\<close>
  returns, and the \<open>LJ\<close> cell of every row is the arithmetic mean of the numbers of its
  lines, however many there are (the number of conformers \<open>c_n\<close> plays no part); for no
  line at all the cell is NaN. The other columns are as before.
\<close>

theorem search_lj_stability_mean:
  assumes md: "c_mode c = ''stability''"
    and col: "''LJ'' \<in> set (columns (G c))"
    and out: "list_all (\<lambda>d. lj_out d = unlines (tails d) \<and> list_all (lj_line_ok r) (tails d))
                (index (G c))"
  shows "\<exists>c'. search_lj lj_out chain_out c = Inr c'
      \<and> index (G c') = index (G c) \<and> columns (G c') = columns (G c)
      \<and> (\<forall>d \<in> set (index (G c)).
            cell (G c') ''LJ'' d =
              (if tails d = [] then NaN
               else Fin (sum_list (map r (tails d)) / of_nat (length (tails d)))))
      \<and> (\<forall>T d. T \<noteq> ''LJ'' \<longrightarrow> cell (G c') T d = cell (G c) T d)"
proof -
  let ?w = "\<lambda>d. mean (map (\<lambda>l. Fin (r l)) (tails d))"
  have p: "\<And>d. d \<in> set (index (G c)) \<Longrightarrow>
      d \<in> set (index (G c)) \<and> lj_values (lj_out d) = Inr (map (\<lambda>l. Fin (r l)) (tails d))"
    using out by (auto simp: list_all_iff lj_values_lines)
  have "efold (\<lambda>d g. ebind (lj_values (lj_out d)) (\<lambda>x. set_cell g ''LJ'' d (mean x)))
          (index (G c)) (G c) = Inr (column_set ''LJ'' (index (G c)) ?w (G c))"
    by (rule efold_set_column[OF col p])
  then have e: "efold (lj_row (c_mode c) lj_out chain_out) (index (G c)) (G c) =
      Inr (column_set ''LJ'' (index (G c)) ?w (G c))"
    unfolding lj_row_def md by simp
  have m: "\<And>d. ?w d = (if tails d = [] then NaN
               else Fin (sum_list (map r (tails d)) / of_nat (length (tails d))))"
    using mean_Fin[of "map r (tails d)" for d] by (simp add: comp_def)
  have "search_lj lj_out chain_out c = Inr (c\<lparr>G := column_set ''LJ'' (index (G c)) ?w (G c)\<rparr>)"
    by (simp add: search_lj_def e)
  then show ?thesis by (simp add: column_set_cell m)
qed

theorem search_lj_stability_mean_witness:
  "c_mode coll5 = ''stability'' \<and> c_n coll5 = 5
   \<and> ''LJ'' \<in> set (columns (G coll5))
   \<and> list_all (\<lambda>d. lj_ex d = unlines lj_tails \<and> list_all (lj_line_ok lj_tail_value) lj_tails)
        (index (G coll5))
   \<and> length lj_tails = 3
   \<and> G_cell (search_lj lj_ex chain_ex coll5) ''LJ'' ''A20G'' = Inr (Fin (- 119.9))"
proof -
  have md: "c_mode coll5 = ''stability''" and n: "c_n coll5 = 5"
    by (simp_all add: coll5_def)
  have cs: "columns (G coll5) = term_columns" and ix: "index (G coll5) = [''1stn'', ''A20G'', ''B_H10I'']"
    by (simp_all add: coll5_def zeros_def)
  have col: "''LJ'' \<in> set (columns (G coll5))" by (simp add: cs term_columns_def)
  have ok: "list_all (lj_line_ok lj_tail_value) lj_tails"
    by (simp add: lj_tails_def lj_line_ok_def lj_tail_value_def float_eval)
  have out: "list_all (\<lambda>d. lj_ex d = unlines lj_tails \<and> list_all (lj_line_ok lj_tail_value) lj_tails)
        (index (G coll5))"
    unfolding ix using ok by (simp add: lj_ex_def lj_tails_def unlines_def)
  have len: "length lj_tails = 3" by (simp add: lj_tails_def)
  from search_lj_stability_mean[OF md col out, of chain_ex] obtain c' where
    r: "search_lj lj_ex chain_ex coll5 = Inr c'"
    and i: "index (G c') = index (G coll5)" and k: "columns (G c') = columns (G coll5)"
    and t: "\<forall>d \<in> set (index (G coll5)). cell (G c') ''LJ'' d =
              (if lj_tails = [] then NaN
               else Fin (sum_list (map lj_tail_value lj_tails) / of_nat (length lj_tails)))"
    by blast
  have "cell (G c') ''LJ'' ''A20G'' = Fin (- 119.9)"
    using t by (simp add: ix lj_tails_def lj_tail_value_def)
  then have a: "G_cell (search_lj lj_ex chain_ex coll5) ''LJ'' ''A20G'' = Inr (Fin (- 119.9))"
    by (simp add: G_cell_def r get_cell_def i k cs ix term_columns_def)
  from md n col out len a show ?thesis by blast
qed

end
